theory Spec2Isabelle
  imports Complex_Main "HOL-Library.Signed_Division"
begin

section \<open>The calendar of Go's time package, as far as week.go calls it\<close>

text \<open>
  week.go calls \<^verbatim>\<open>time.Date(year, 1, day, 0, 0, 0, 0, time.UTC)\<close>, \<^verbatim>\<open>Time.Weekday\<close> and
  \<^verbatim>\<open>Time.ISOWeek\<close>. Every instant it builds is a midnight in UTC, and \<^verbatim>\<open>ISOWeek\<close> and
  \<^verbatim>\<open>Weekday\<close> only read the civil day of an instant, so a \<^verbatim>\<open>time.Time\<close> is modelled by
  its civil day: the number of days since Monday, 1 January of year 1 in the proleptic
  Gregorian calendar. The library counts from an internal year zero that lies a whole number
  of 400-year cycles before year 1; the cycle arithmetic below is the library's, counted
  from year 1, with the flooring division that this shift turns its unsigned division into.
\<close>

type_synonym time = int

text \<open>\<^verbatim>\<open>year%4 == 0 && (year%100 != 0 || year%400 == 0)\<close>; a remainder is zero under Go's
  truncating \<^verbatim>\<open>%\<close> exactly when it is zero under \<open>mod\<close>.\<close>

definition isLeap :: "int \<Rightarrow> bool" where
  "isLeap y = (y mod 4 = 0 \<and> (y mod 100 \<noteq> 0 \<or> y mod 400 = 0))"

text \<open>The days from the epoch to 1 January of a year: whole 400-year, 100-year and 4-year
  cycles, then the remaining years of 365 days.\<close>

definition daysSinceEpoch :: "int \<Rightarrow> int" where
  "daysSinceEpoch yr =
     (let y = yr - 1;
          n400 = y div 400; y1 = y - 400 * n400;
          n100 = y1 div 100; y2 = y1 - 100 * n100;
          n4 = y2 div 4; y3 = y2 - 4 * n4
      in 146097 * n400 + 36524 * n100 + 1461 * n4 + 365 * y3)"

definition daysBefore :: "int list" where
  "daysBefore = [0, 31, 59, 90, 120, 151, 181, 212, 243, 273, 304, 334, 365]"

text \<open>\<^verbatim>\<open>time.Date\<close> at midnight UTC. A month outside 1..12 is carried into the year; a day
  outside the month is not rejected: the days are added to the first of the month.\<close>

definition Date :: "int \<Rightarrow> int \<Rightarrow> int \<Rightarrow> time" where
  "Date yr month day =
     (let m = month - 1;
          yr' = yr + m div 12;
          m' = m mod 12
      in daysSinceEpoch yr' + daysBefore ! nat m'
         + (if isLeap yr' \<and> 3 \<le> m' + 1 then 1 else 0) + (day - 1))"

text \<open>\<^verbatim>\<open>time.Weekday\<close> is an integer type: Sunday = 0, Monday = 1, ..., Saturday = 6.\<close>

definition Sunday :: int where "Sunday = 0"
definition Thursday :: int where "Thursday = 4"

definition Weekday :: "time \<Rightarrow> int" where
  "Weekday t = (t + 1) mod 7"

text \<open>The year of a day and the day's zero-based position in it, by cutting off 400-year,
  100-year, 4-year and 1-year cycles. The library's \<^verbatim>\<open>n -= n >> 2\<close> turns a quotient of 4
  (the last day of a cycle that ends in a leap day) into 3.\<close>

definition absDate :: "time \<Rightarrow> int \<times> int" where
  "absDate days =
     (let n400 = days div 146097; d1 = days - 146097 * n400;
          n100 = d1 div 36524; n100' = n100 - n100 div 4; d2 = d1 - 36524 * n100';
          n4 = d2 div 1461; d3 = d2 - 1461 * n4;
          n1 = d3 div 365; n1' = n1 - n1 div 4; d4 = d3 - 365 * n1'
      in (1 + 400 * n400 + 100 * n100' + 4 * n4 + n1', d4))"

text \<open>\<^verbatim>\<open>Time.ISOWeek\<close>: move to the Thursday of the day's Monday-to-Sunday week; the ISO year
  is that Thursday's year and the week is its zero-based day of the year over 7, plus 1.\<close>

definition ISOWeek :: "time \<Rightarrow> int \<times> int" where
  "ISOWeek t =
     (let d = Thursday - Weekday t;
          d' = (if d = 4 then - 3 else d);
          (yr, yday) = absDate (t + d')
      in (yr, yday div 7 + 1))"

section \<open>week.go\<close>

record Week =
  year :: int
  week :: int

text \<open>Errors: the three kinds the spec names for validation and decoding, \<^verbatim>\<open>errors.New\<close>
  with its message, and \<^verbatim>\<open>errors.Wrap\<close> of a cause with a message.\<close>

datatype error =
    InvalidYear
  | InvalidWeek
  | FormatError
  | ErrorsNew string
  | Wrap error string

fun cause :: "error \<Rightarrow> error" where
  "cause (Wrap e msg) = cause e"
| "cause e = e"

text \<open>A call either returns or panics (an index or a slice bound out of range, an explicit
  \<^verbatim>\<open>panic\<close>).\<close>

datatype 'a outcome = Panicked | Returned 'a

subsection \<open>The helpers that week.go calls and does not define\<close>

text \<open>Modelled from the spec: \<^verbatim>\<open>isLeapYear\<close> is called by \<^verbatim>\<open>normalizeOrdinal\<close> and is not in
  week.go. The spec's calendar is the proleptic Gregorian one, with 366 days in a leap
  year.\<close>

definition isLeapYear :: "int \<Rightarrow> bool" where
  "isLeapYear y = (y mod 4 = 0 \<and> (y mod 100 \<noteq> 0 \<or> y mod 400 = 0))"

text \<open>Modelled from the spec: \<^verbatim>\<open>weeksInYear\<close> is not in week.go. The spec (4.2) gives the
  ISO 8601 long-year rule as its algorithm: 53 weeks iff 1 January of the year falls on a
  Thursday, or 31 December does; 52 otherwise.\<close>

definition weeksInYear :: "int \<Rightarrow> int" where
  "weeksInYear y =
     (if Weekday (Date y 1 1) = Thursday \<or> Weekday (Date y 12 31) = Thursday then 53 else 52)"

text \<open>The formula that the spec (4.2) calls equivalent to the long-year rule, in the spec's
  words, for comparison with \<open>weeksInYear\<close>.\<close>

definition p_year :: "int \<Rightarrow> int" where
  "p_year y = (y + y div 4 - y div 100 + y div 400) mod 7"

definition long_year_formula :: "int \<Rightarrow> bool" where
  "long_year_formula y = (p_year y = 4 \<or> p_year y = 3 \<and> isLeapYear y)"

text \<open>Modelled from the spec: \<^verbatim>\<open>checkYearAndWeek\<close> is not in week.go. The spec (4.1):
  the year must lie in 0..9999 (else \<open>InvalidYear\<close>), the week must be at least 1 and at most
  \<open>weeksInYear year\<close> (else \<open>InvalidWeek\<close>). Go's \<^verbatim>\<open>nil\<close> error is \<open>None\<close>.\<close>

definition checkYearAndWeek :: "int \<Rightarrow> int \<Rightarrow> error option" where
  "checkYearAndWeek y wk =
     (if y < 0 \<or> 9999 < y then Some InvalidYear
      else if wk < 1 \<or> weeksInYear y < wk then Some InvalidWeek
      else None)"

text \<open>Modelled from the spec: the text codec (4.5) is not in week.go. The canonical token
  is 8 ASCII bytes, \<^verbatim>\<open>YYYY-Www\<close>: the year zero-padded to 4 digits, \<^verbatim>\<open>-W\<close>, the week
  zero-padded to 2 digits.\<close>

definition digit_char :: "int \<Rightarrow> char" where
  "digit_char d = char_of (48 + d)"

definition is_digit :: "char \<Rightarrow> bool" where
  "is_digit c = (48 \<le> (of_char c :: int) \<and> (of_char c :: int) \<le> 57)"

definition digit_value :: "char \<Rightarrow> int" where
  "digit_value c = of_char c - 48"

definition parse_digits :: "string \<Rightarrow> int option" where
  "parse_digits s =
     (if list_all is_digit s then Some (foldl (\<lambda>a c. 10 * a + digit_value c) 0 s) else None)"

text \<open>\<^verbatim>\<open>encode\<close> fails only if validation fails, and otherwise produces the 8 bytes.\<close>

definition encodeISOWeekDate :: "int \<Rightarrow> int \<Rightarrow> error + string" where
  "encodeISOWeekDate y wk =
     (case checkYearAndWeek y wk of
        Some e \<Rightarrow> Inl e
      | None \<Rightarrow>
          Inr [digit_char (y div 1000 mod 10), digit_char (y div 100 mod 10),
               digit_char (y div 10 mod 10), digit_char (y mod 10),
               CHR ''-'', CHR ''W'',
               digit_char (wk div 10 mod 10), digit_char (wk mod 10)])"

text \<open>\<^verbatim>\<open>decode\<close> fails with a format error if the length is not 8, if the byte at offset 4
  is not \<^verbatim>\<open>-\<close>, if the byte at offset 5 is not \<^verbatim>\<open>W\<close>, or if the year or week substrings are
  not ASCII digits only; and with the validation's error if the decoded pair is not valid.\<close>

definition decodeISOWeekDate :: "string \<Rightarrow> error + int \<times> int" where
  "decodeISOWeekDate data =
     (if length data \<noteq> 8 then Inl FormatError
      else if data ! 4 \<noteq> CHR ''-'' then Inl FormatError
      else if data ! 5 \<noteq> CHR ''W'' then Inl FormatError
      else
        (case (parse_digits (take 4 data), parse_digits (drop 6 data)) of
           (Some y, Some wk) \<Rightarrow>
             (case checkYearAndWeek y wk of
                Some e \<Rightarrow> Inl e
              | None \<Rightarrow> Inr (y, wk))
         | _ \<Rightarrow> Inl FormatError))"

subsection \<open>Construction\<close>

text \<open>\<^verbatim>\<open>New\<close> returns the pair of Go: the zero \<^verbatim>\<open>Week{}\<close> beside an error, the week beside
  \<^verbatim>\<open>nil\<close>.\<close>

definition New :: "int \<Rightarrow> int \<Rightarrow> Week \<times> error option" where
  "New y wk =
     (case checkYearAndWeek y wk of
        Some err \<Rightarrow> (\<lparr>year = 0, week = 0\<rparr>, Some err)
      | None \<Rightarrow> (\<lparr>year = y, week = wk\<rparr>, None))"

text \<open>The invariant of a week that has passed validation.\<close>

definition valid :: "Week \<Rightarrow> bool" where
  "valid w = (0 \<le> year w \<and> year w \<le> 9999 \<and> 1 \<le> week w \<and> week w \<le> weeksInYear (year w))"

subsection \<open>Arithmetic\<close>

text \<open>Go's \<^verbatim>\<open>int\<close> is modelled by \<open>int\<close>: for weeks that have passed validation (years in
  0..9999, weeks in 1..53) no intermediate value of \<^verbatim>\<open>Sub\<close> leaves the 64-bit range, and in
  \<^verbatim>\<open>add\<close> none does as long as \<^verbatim>\<open>w.week + weeksToAdd\<close> itself does not wrap.\<close>

text \<open>The walk of \<^verbatim>\<open>Sub\<close> from \<^verbatim>\<open>yearA\<close> to \<^verbatim>\<open>yearB\<close>, with its guard.\<close>

function sub_loop :: "int \<Rightarrow> int \<Rightarrow> int \<Rightarrow> int \<Rightarrow> int \<Rightarrow> int outcome" where
  "sub_loop yearA yearB weekA weekB diff =
     (if yearA > yearB then Panicked
      else if yearA \<noteq> yearB then sub_loop (yearA + 1) yearB weekA weekB (diff + weeksInYear yearA)
      else Returned (diff + (weekB - weekA)))"
  by pat_completeness auto
termination
  by (relation "measure (\<lambda>(yearA, yearB, weekA, weekB, diff). nat (yearB - yearA))") auto

declare sub_loop.simps [simp del]

text \<open>\<^verbatim>\<open>int(math.Sqrt(float64(yearDiff*yearDiff))) / yearDiff\<close>: the float64 is modelled by a
  real (for years in 0..9999 the square is below \<open>2 ^ 53\<close>, so the conversion is exact, and
  the square root of a perfect square is exact in IEEE 754); \<^verbatim>\<open>int\<close> of a non-negative
  float is its floor, and Go's \<^verbatim>\<open>/\<close> on integers truncates.\<close>

definition Sub :: "Week \<Rightarrow> Week \<Rightarrow> int outcome" where
  "Sub w u =
     (let yearDiff = year u - year w;
          direction =
            (if yearDiff \<noteq> 0 then \<lfloor>sqrt (of_int (yearDiff * yearDiff))\<rfloor> sdiv yearDiff else 1);
          smallerWeek = (if direction = - 1 then u else w);
          biggerWeek = (if direction = - 1 then w else u)
      in case sub_loop (year smallerWeek) (year biggerWeek) (week smallerWeek) (week biggerWeek) 0 of
           Panicked \<Rightarrow> Panicked
         | Returned diff \<Rightarrow> Returned (diff * direction))"

text \<open>The same walk cut off after \<open>n\<close> passes through the loop body (\<open>None\<close>: not finished
  within \<open>n\<close> passes), to count the iterations, and \<^verbatim>\<open>Sub\<close> over it.\<close>

fun sub_loop_fuel :: "nat \<Rightarrow> int \<Rightarrow> int \<Rightarrow> int \<Rightarrow> int \<Rightarrow> int \<Rightarrow> int outcome option" where
  "sub_loop_fuel 0 yearA yearB weekA weekB diff = None"
| "sub_loop_fuel (Suc n) yearA yearB weekA weekB diff =
     (if yearA > yearB then Some Panicked
      else if yearA \<noteq> yearB then sub_loop_fuel n (yearA + 1) yearB weekA weekB (diff + weeksInYear yearA)
      else Some (Returned (diff + (weekB - weekA))))"

definition Sub_fuel :: "nat \<Rightarrow> Week \<Rightarrow> Week \<Rightarrow> int outcome option" where
  "Sub_fuel n w u =
     (let yearDiff = year u - year w;
          direction =
            (if yearDiff \<noteq> 0 then \<lfloor>sqrt (of_int (yearDiff * yearDiff))\<rfloor> sdiv yearDiff else 1);
          smallerWeek = (if direction = - 1 then u else w);
          biggerWeek = (if direction = - 1 then w else u)
      in case sub_loop_fuel n (year smallerWeek) (year biggerWeek) (week smallerWeek) (week biggerWeek) 0 of
           None \<Rightarrow> None
         | Some Panicked \<Rightarrow> Some Panicked
         | Some (Returned diff) \<Rightarrow> Some (Returned (diff * direction)))"

text \<open>The loop of \<^verbatim>\<open>add\<close>. For a receiver that has not passed validation it need not end
  (a negative week with a non-negative offset only moves further down), so not returning
  is the value \<open>None\<close>.\<close>

partial_function (option) add_loop :: "int \<Rightarrow> int \<Rightarrow> int \<Rightarrow> int \<Rightarrow> (int \<times> int) option" where
  "add_loop sign yr wk maxWeeks =
     (if wk > maxWeeks \<or> wk < 0 then
        add_loop sign (yr + sign)
          ((if sign = 1 then wk - maxWeeks else wk)
             + (if sign = - 1 then weeksInYear (yr + sign) else 0))
          (weeksInYear (yr + sign))
      else Some (yr, wk))"

declare add_loop.simps [code]

definition add :: "Week \<Rightarrow> int \<Rightarrow> (Week \<times> error option) option" where
  "add w weeksToAdd =
     (let sign = (if weeksToAdd < 0 then - 1 else 1) in
      case add_loop sign (year w) (week w + weeksToAdd) (weeksInYear (year w)) of
        None \<Rightarrow> None
      | Some (yr, wk) \<Rightarrow>
          Some (if wk = 0 then New (yr + sign) (weeksInYear (yr + sign)) else New yr wk))"

definition Add :: "Week \<Rightarrow> int \<Rightarrow> (Week \<times> error option) option" where
  "Add w weeks = add w weeks"

definition Next :: "Week \<Rightarrow> (Week \<times> error option) option" where
  "Next w = Add w 1"

definition Previous :: "Week \<Rightarrow> (Week \<times> error option) option" where
  "Previous w = Add w (- 1)"

subsection \<open>Serialization\<close>

text \<open>A method with a pointer receiver returns the receiver as it is after the call, beside
  its error. \<^verbatim>\<open>data[0]\<close> and \<^verbatim>\<open>data[len(data)-1]\<close> panic on an empty slice, and
  \<^verbatim>\<open>data[1 : len(data)-1]\<close> panics when \<^verbatim>\<open>len(data)-1\<close> is below 1.\<close>

definition UnmarshalJSON :: "Week \<Rightarrow> string \<Rightarrow> (Week \<times> error option) outcome" where
  "UnmarshalJSON w data =
     (if data = [] then Panicked
      else if data ! 0 \<noteq> CHR 0x22 \<or> data ! (length data - 1) \<noteq> CHR 0x22 then
        Returned (w, Some (ErrorsNew ''unable to unmarshal json: string literal expected''))
      else if length data - 1 < 1 then Panicked
      else
        (case decodeISOWeekDate (take (length data - 2) (drop 1 data)) of
           Inl err \<Rightarrow> Returned (w, Some (Wrap err ''unable to unmarshal json''))
         | Inr (yr, wk) \<Rightarrow> Returned (w\<lparr>year := yr, week := wk\<rparr>, None)))"

definition MarshalJSON :: "Week \<Rightarrow> error + string" where
  "MarshalJSON w =
     (case encodeISOWeekDate (year w) (week w) of
        Inl err \<Rightarrow> Inl (Wrap err ''unable to marshal json'')
      | Inr raw \<Rightarrow> Inr ([CHR 0x22] @ raw @ [CHR 0x22]))"

definition UnmarshalText :: "Week \<Rightarrow> string \<Rightarrow> Week \<times> error option" where
  "UnmarshalText w data =
     (case decodeISOWeekDate data of
        Inl err \<Rightarrow> (w, Some (Wrap err ''unable to unmarshal text''))
      | Inr (yr, wk) \<Rightarrow> (w\<lparr>year := yr, week := wk\<rparr>, None))"

definition MarshalText :: "Week \<Rightarrow> error + string" where
  "MarshalText w =
     (case encodeISOWeekDate (year w) (week w) of
        Inl err \<Rightarrow> Inl (Wrap err ''unable to marshal text'')
      | Inr text \<Rightarrow> Inr text)"

definition Value :: "Week \<Rightarrow> error + string" where
  "Value w =
     (case encodeISOWeekDate (year w) (week w) of
        Inl err \<Rightarrow> Inl (Wrap err ''unable to create value'')
      | Inr text \<Rightarrow> Inr text)"

text \<open>The dynamic type of the \<^verbatim>\<open>interface{}\<close> that \<^verbatim>\<open>Scan\<close> switches on.\<close>

datatype src_value = SrcString string | SrcBytes string | SrcOther

definition Scan :: "Week \<Rightarrow> src_value \<Rightarrow> Week \<times> error option" where
  "Scan w src =
     (case src of
        SrcOther \<Rightarrow> (w, Some (ErrorsNew ''unable to scan value: incompatible type''))
      | _ \<Rightarrow>
          (case decodeISOWeekDate (case src of SrcString val \<Rightarrow> val | SrcBytes val \<Rightarrow> val | SrcOther \<Rightarrow> []) of
             Inl err \<Rightarrow> (w, Some (Wrap err ''unable to scan value''))
           | Inr (yr, wk) \<Rightarrow> (w\<lparr>year := yr, week := wk\<rparr>, None)))"

subsection \<open>Calendar conversion\<close>

definition FromTime :: "time \<Rightarrow> Week" where
  "FromTime t = (case ISOWeek t of (yr, wk) \<Rightarrow> \<lparr>year = yr, week = wk\<rparr>)"

definition convertToISOWeekday :: "int \<Rightarrow> int" where
  "convertToISOWeekday weekday = (if weekday = Sunday then 7 else weekday)"

definition normalizeOrdinal :: "int \<Rightarrow> int \<Rightarrow> int \<times> int" where
  "normalizeOrdinal yr ordinal =
     (if ordinal < 1 then (yr - 1, (if isLeapYear (yr - 1) then 366 else 365) + ordinal)
      else
        (let daysInYear = (if isLeapYear yr then 366 else 365) in
         if ordinal > daysInYear then (yr + 1, ordinal - daysInYear) else (yr, ordinal)))"

definition Time :: "Week \<Rightarrow> int \<Rightarrow> time" where
  "Time w weekday =
     (let isoWeekday = convertToISOWeekday weekday;
          jan4th = Date (year w) 1 4;
          correction = convertToISOWeekday (Weekday jan4th) + 3;
          ordinal = week w * 7 + isoWeekday - correction;
          (yr, ordinal') = normalizeOrdinal (year w) ordinal
      in Date yr 1 ordinal')"

subsection \<open>Counting weeks\<close>

text \<open>The position of a week on the line of all weeks: the weeks of the years from year 0
  up to the week's year, plus its week number (for a year below 0, the weeks back to year
  0 are taken off). With it, "\<open>n\<close> weeks after" and "chronologically after" have a meaning
  that does not come from the loops.\<close>

definition weeks_before :: "int \<Rightarrow> int" where
  "weeks_before y =
     (if 0 \<le> y then sum_list (map weeksInYear [0..y - 1])
      else - sum_list (map weeksInYear [y..- 1]))"

definition week_number :: "Week \<Rightarrow> int" where
  "week_number w = weeks_before (year w) + week w"

text \<open>Chronological order of two weeks: by year, then by week.\<close>

definition before :: "Week \<Rightarrow> Week \<Rightarrow> bool" where
  "before a b = (year a < year b \<or> year a = year b \<and> week a < week b)"

section \<open>Facts about the calendar and the week count\<close>

lemmas calendar_defs = weeksInYear_def Date_def daysSinceEpoch_def daysBefore_def isLeap_def
  Weekday_def Thursday_def Let_def

lemma weeksInYear_cases: "weeksInYear y = 52 \<or> weeksInYear y = 53"
  by (simp add: weeksInYear_def)

lemma weeksInYear_ge: "52 \<le> weeksInYear y"
  using weeksInYear_cases [of y] by auto

lemma weeksInYear_le: "weeksInYear y \<le> 53"
  using weeksInYear_cases [of y] by auto

lemma weeksInYear_2015: "weeksInYear 2015 = 53"
  by (simp add: calendar_defs)

lemma weeksInYear_2016: "weeksInYear 2016 = 52"
  by (simp add: calendar_defs)

lemma weeksInYear_2019: "weeksInYear 2019 = 52"
  by (simp add: calendar_defs)

lemma weeksInYear_2020: "weeksInYear 2020 = 53"
  by (simp add: calendar_defs)

lemma weeksInYear_2021: "weeksInYear 2021 = 52"
  by (simp add: calendar_defs)

section \<open>Construction and validation\<close>

lemma checkYearAndWeek_None:
  "(checkYearAndWeek y wk = None) = (0 \<le> y \<and> y \<le> 9999 \<and> 1 \<le> wk \<and> wk \<le> weeksInYear y)"
  by (simp add: checkYearAndWeek_def not_less)

lemma checkYearAndWeek_valid: "(checkYearAndWeek y wk = None) = valid \<lparr>year = y, week = wk\<rparr>"
  by (simp add: checkYearAndWeek_None valid_def)

lemma snd_New: "snd (New y wk) = checkYearAndWeek y wk"
  by (cases "checkYearAndWeek y wk") (simp_all add: New_def)

text \<open>
  C5. \<^verbatim>\<open>New(year, week)\<close> returns no error exactly when the year is in 0..9999 and the week
  is in 1..\<open>weeksInYear year\<close>, and it then returns the week with these fields.
  \<^verbatim>\<open>New(-1, 1)\<close> and \<^verbatim>\<open>New(10000, 1)\<close> fail with \<open>InvalidYear\<close>, \<^verbatim>\<open>New(2021, 53)\<close> fails with
  \<open>InvalidWeek\<close>, and \<^verbatim>\<open>New(2021, 52)\<close> succeeds.
\<close>

theorem New_succeeds_iff:
  "(snd (New y wk) = None) = (0 \<le> y \<and> y \<le> 9999 \<and> 1 \<le> wk \<and> wk \<le> weeksInYear y)
   \<and> (snd (New y wk) = None) = (New y wk = (\<lparr>year = y, week = wk\<rparr>, None))
   \<and> New (- 1) 1 = (\<lparr>year = 0, week = 0\<rparr>, Some InvalidYear)
   \<and> New 10000 1 = (\<lparr>year = 0, week = 0\<rparr>, Some InvalidYear)
   \<and> New 2021 53 = (\<lparr>year = 0, week = 0\<rparr>, Some InvalidWeek)
   \<and> New 2021 52 = (\<lparr>year = 2021, week = 52\<rparr>, None)"
proof -
  have 1: "(snd (New y wk) = None) = (0 \<le> y \<and> y \<le> 9999 \<and> 1 \<le> wk \<and> wk \<le> weeksInYear y)"
    by (simp only: snd_New checkYearAndWeek_None)
  have 2: "(snd (New y wk) = None) = (New y wk = (\<lparr>year = y, week = wk\<rparr>, None))"
    by (cases "checkYearAndWeek y wk") (simp_all add: New_def)
  have 3: "New (- 1) 1 = (\<lparr>year = 0, week = 0\<rparr>, Some InvalidYear)"
    by (simp add: New_def checkYearAndWeek_def)
  have 4: "New 10000 1 = (\<lparr>year = 0, week = 0\<rparr>, Some InvalidYear)"
    by (simp add: New_def checkYearAndWeek_def)
  have 5: "New 2021 53 = (\<lparr>year = 0, week = 0\<rparr>, Some InvalidWeek)"
    by (simp add: New_def checkYearAndWeek_def weeksInYear_2021)
  have 6: "New 2021 52 = (\<lparr>year = 2021, week = 52\<rparr>, None)"
    by (simp add: New_def checkYearAndWeek_def weeksInYear_2021)
  from 1 2 3 4 5 6 show ?thesis by blast
qed

theorem New_succeeds_iff_witness:
  "snd (New 2020 53) = None \<and> New 2020 53 = (\<lparr>year = 2020, week = 53\<rparr>, None)"
proof -
  have "0 \<le> (2020::int) \<and> (2020::int) \<le> 9999 \<and> 1 \<le> (53::int) \<and> 53 \<le> weeksInYear 2020"
    by (simp add: weeksInYear_2020)
  with New_succeeds_iff [of 2020 53] show ?thesis by blast
qed

section \<open>The difference of two weeks\<close>

lemma sqrt_direction: "d \<noteq> 0 \<Longrightarrow> \<lfloor>sqrt (of_int (d * d))\<rfloor> sdiv d = sgn d"
proof -
  assume d: "d \<noteq> 0"
  have "sqrt (of_int (d * d)) = \<bar>of_int d\<bar>" by simp
  then have "\<lfloor>sqrt (of_int (d * d))\<rfloor> = \<bar>d\<bar>"
    by (metis floor_of_int of_int_abs)
  then show ?thesis using d
    by (simp add: signed_divide_int_def sgn_if)
qed

lemma weeks_before_Suc: "weeks_before (y + 1) = weeks_before y + weeksInYear y"
proof -
  consider "0 \<le> y" | "y = - 1" | "y < - 1" by linarith
  then show ?thesis
  proof cases
    case 1
    then have "[0..y] = [0..y - 1] @ [y]" by (simp add: upto_rec2)
    with 1 show ?thesis by (simp add: weeks_before_def)
  next
    case 2
    then show ?thesis by (simp add: weeks_before_def)
  next
    case 3
    then have "[y..- 1] = y # [y + 1..- 1]" by (simp add: upto_rec1)
    with 3 show ?thesis by (simp add: weeks_before_def)
  qed
qed

lemma weeks_before_mono: "a \<le> b \<Longrightarrow> weeks_before a \<le> weeks_before b"
proof (induction b rule: int_ge_induct)
  case base
  show ?case by simp
next
  case (step i)
  then show ?case using weeks_before_Suc [of i] weeksInYear_ge [of i] by linarith
qed

lemma sub_loop_eq:
  "yearA \<le> yearB \<Longrightarrow>
   sub_loop yearA yearB weekA weekB diff =
     Returned (diff + (weeks_before yearB - weeks_before yearA) + (weekB - weekA))"
proof (induction yearA yearB weekA weekB diff rule: sub_loop.induct)
  case (1 yearA yearB weekA weekB diff)
  show ?case
  proof (cases "yearA = yearB")
    case True
    then show ?thesis by (subst sub_loop.simps) simp
  next
    case False
    with "1.prems" have lt: "yearA + 1 \<le> yearB" and nle: "\<not> yearA > yearB" by auto
    have "sub_loop yearA yearB weekA weekB diff =
          sub_loop (yearA + 1) yearB weekA weekB (diff + weeksInYear yearA)"
      using False nle by (subst sub_loop.simps) simp
    also have "\<dots> = Returned (diff + weeksInYear yearA
                   + (weeks_before yearB - weeks_before (yearA + 1)) + (weekB - weekA))"
      using "1.IH" [OF nle False lt] .
    finally show ?thesis by (simp add: weeks_before_Suc)
  qed
qed

lemma direction_value:
  "(if d \<noteq> 0 then \<lfloor>sqrt (of_int (d * d))\<rfloor> sdiv d else 1) = (if d < 0 then - 1 else (1::int))"
proof (cases "d = 0")
  case True
  then show ?thesis by simp
next
  case False
  then have s: "\<lfloor>sqrt (of_int (d * d))\<rfloor> sdiv d = sgn d" by (rule sqrt_direction)
  have t: "sgn d = (if d < 0 then - 1 else 1)" using False by (auto simp add: sgn_if)
  show ?thesis unfolding s t using False by simp
qed

lemma Sub_unfold:
  "Sub w u =
     (if year u - year w < 0
      then (case sub_loop (year u) (year w) (week u) (week w) 0 of
              Panicked \<Rightarrow> Panicked | Returned diff \<Rightarrow> Returned (diff * (- 1)))
      else (case sub_loop (year w) (year u) (week w) (week u) 0 of
              Panicked \<Rightarrow> Panicked | Returned diff \<Rightarrow> Returned (diff * 1)))"
  unfolding Sub_def direction_value Let_def by simp

lemma Sub_eq: "Sub w u = Returned (week_number u - week_number w)"
proof (cases "year u - year w < 0")
  case True
  then have "year u \<le> year w" by simp
  then have "sub_loop (year u) (year w) (week u) (week w) 0 =
             Returned (0 + (weeks_before (year w) - weeks_before (year u)) + (week w - week u))"
    by (rule sub_loop_eq)
  with True show ?thesis by (simp only: Sub_unfold if_True outcome.case week_number_def) simp
next
  case False
  then have "year w \<le> year u" by simp
  then have "sub_loop (year w) (year u) (week w) (week u) 0 =
             Returned (0 + (weeks_before (year u) - weeks_before (year w)) + (week u - week w))"
    by (rule sub_loop_eq)
  with False show ?thesis by (simp only: Sub_unfold if_False outcome.case week_number_def) simp
qed

lemma week_number_less:
  assumes "valid a" "valid b" "before a b"
  shows "week_number a < week_number b"
proof (cases "year a = year b")
  case True
  with assms show ?thesis by (simp add: before_def week_number_def)
next
  case False
  with assms have "year a + 1 \<le> year b" by (simp add: before_def)
  then have "weeks_before (year a + 1) \<le> weeks_before (year b)" by (rule weeks_before_mono)
  moreover have "week a \<le> weeksInYear (year a)" "1 \<le> week b"
    using assms by (simp_all add: valid_def)
  ultimately show ?thesis by (simp add: week_number_def weeks_before_Suc)
qed

lemma before_total: "before a b \<or> before b a \<or> a = b"
  by (cases a, cases b) (auto simp add: before_def)

lemma week_number_inj:
  assumes "valid a" "valid b" "week_number a = week_number b"
  shows "a = b"
  using week_number_less [of a b] week_number_less [of b a] before_total [of a b] assms by auto

text \<open>
  C3. For weeks \<open>a\<close> and \<open>b\<close> that have passed validation, \<^verbatim>\<open>a.Sub(b)\<close> returns the signed
  number of weeks from \<open>a\<close> to \<open>b\<close> (the position of \<open>b\<close> on the line of weeks minus that of
  \<open>a\<close>): positive exactly when \<open>b\<close> is chronologically after \<open>a\<close>, negative exactly when \<open>b\<close>
  is before \<open>a\<close>, zero exactly when they are equal. The difference of \<^verbatim>\<open>New(2015,1)\<close> and
  itself is 0, and from \<^verbatim>\<open>New(2015,1)\<close> to \<^verbatim>\<open>New(2016,1)\<close> it is \<open>weeksInYear 2015\<close>.
\<close>

theorem Sub_signed_weeks:
  assumes "valid a" and "valid b"
  shows "Sub a b = Returned (week_number b - week_number a)
         \<and> (0 < week_number b - week_number a) = before a b
         \<and> (week_number b - week_number a < 0) = before b a
         \<and> (week_number b - week_number a = 0) = (a = b)
         \<and> Sub (fst (New 2015 1)) (fst (New 2015 1)) = Returned 0
         \<and> Sub (fst (New 2015 1)) (fst (New 2016 1)) = Returned (weeksInYear 2015)"
proof -
  have lt: "before x y \<Longrightarrow> valid x \<Longrightarrow> valid y \<Longrightarrow> week_number x < week_number y" for x y
    by (rule week_number_less)
  have 1: "(0 < week_number b - week_number a) = before a b"
    using lt [of a b] lt [of b a] assms before_total [of a b] by auto
  have 2: "(week_number b - week_number a < 0) = before b a"
    using lt [of a b] lt [of b a] assms before_total [of a b] by auto
  have 3: "(week_number b - week_number a = 0) = (a = b)"
    using lt [of a b] lt [of b a] assms before_total [of a b] by auto
  have 4: "Sub (fst (New 2015 1)) (fst (New 2015 1)) = Returned 0"
    by (simp add: Sub_eq)
  have "week_number (fst (New 2016 1)) - week_number (fst (New 2015 1)) = weeksInYear 2015"
    using weeks_before_Suc [of 2015]
    by (simp add: New_def checkYearAndWeek_def weeksInYear_2015 weeksInYear_2016 week_number_def)
  then have 5: "Sub (fst (New 2015 1)) (fst (New 2016 1)) = Returned (weeksInYear 2015)"
    by (simp add: Sub_eq)
  have 0: "Sub a b = Returned (week_number b - week_number a)"
    by (rule Sub_eq)
  from 0 1 2 3 4 5 show ?thesis by blast
qed

theorem Sub_signed_weeks_witness:
  "valid \<lparr>year = 2015, week = 53\<rparr> \<and> valid \<lparr>year = 2016, week = 1\<rparr>
   \<and> Sub \<lparr>year = 2015, week = 53\<rparr> \<lparr>year = 2016, week = 1\<rparr> = Returned 1
   \<and> before \<lparr>year = 2015, week = 53\<rparr> \<lparr>year = 2016, week = 1\<rparr>"
proof -
  have a: "valid \<lparr>year = 2015, week = 53\<rparr>" by (simp add: valid_def weeksInYear_2015)
  have b: "valid \<lparr>year = 2016, week = 1\<rparr>" by (simp add: valid_def weeksInYear_2016)
  have n: "week_number \<lparr>year = 2016, week = 1\<rparr> - week_number \<lparr>year = 2015, week = 53\<rparr> = 1"
    using weeks_before_Suc [of 2015] by (simp add: week_number_def weeksInYear_2015)
  have "Sub \<lparr>year = 2015, week = 53\<rparr> \<lparr>year = 2016, week = 1\<rparr> = Returned 1"
    using Sub_signed_weeks [OF a b] n by simp
  moreover have "before \<lparr>year = 2015, week = 53\<rparr> \<lparr>year = 2016, week = 1\<rparr>"
    by (simp add: before_def)
  ultimately show ?thesis using a b by simp
qed

section \<open>The length of the walk of Sub\<close>

lemma sub_loop_fuel_enough:
  "yearA \<le> yearB \<Longrightarrow> nat (yearB - yearA) < n \<Longrightarrow>
   sub_loop_fuel n yearA yearB weekA weekB diff = Some (sub_loop yearA yearB weekA weekB diff)"
proof (induction n arbitrary: yearA diff)
  case 0
  then show ?case by simp
next
  case (Suc n)
  show ?case
  proof (cases "yearA = yearB")
    case True
    then show ?thesis by (subst sub_loop.simps) simp
  next
    case False
    with Suc.prems have le: "yearA + 1 \<le> yearB" and fuel: "nat (yearB - (yearA + 1)) < n"
      by auto
    have "sub_loop_fuel n (yearA + 1) yearB weekA weekB (diff + weeksInYear yearA) =
          Some (sub_loop (yearA + 1) yearB weekA weekB (diff + weeksInYear yearA))"
      using le fuel by (rule Suc.IH)
    moreover have "sub_loop yearA yearB weekA weekB diff =
          sub_loop (yearA + 1) yearB weekA weekB (diff + weeksInYear yearA)"
      using False Suc.prems(1) by (subst sub_loop.simps) simp
    ultimately show ?thesis using False Suc.prems(1) by simp
  qed
qed

lemma Sub_fuel_unfold:
  "Sub_fuel n w u =
     (if year u - year w < 0
      then (case sub_loop_fuel n (year u) (year w) (week u) (week w) 0 of
              None \<Rightarrow> None
            | Some Panicked \<Rightarrow> Some Panicked
            | Some (Returned diff) \<Rightarrow> Some (Returned (diff * (- 1))))
      else (case sub_loop_fuel n (year w) (year u) (week w) (week u) 0 of
              None \<Rightarrow> None
            | Some Panicked \<Rightarrow> Some Panicked
            | Some (Returned diff) \<Rightarrow> Some (Returned (diff * 1))))"
  unfolding Sub_fuel_def direction_value Let_def by simp

lemma Sub_fuel_enough:
  assumes "nat \<bar>year w - year u\<bar> < n"
  shows "Sub_fuel n w u = Some (Sub w u)"
proof (cases "year u - year w < 0")
  case True
  then have le: "year u \<le> year w" by simp
  from assms True have fuel: "nat (year w - year u) < n" by simp
  have f: "sub_loop_fuel n (year u) (year w) (week u) (week w) 0 =
        Some (sub_loop (year u) (year w) (week u) (week w) 0)"
    using le fuel by (rule sub_loop_fuel_enough)
  have r: "sub_loop (year u) (year w) (week u) (week w) 0 =
             Returned (0 + (weeks_before (year w) - weeks_before (year u)) + (week w - week u))"
    using le by (rule sub_loop_eq)
  show ?thesis using True by (simp only: Sub_fuel_unfold Sub_unfold f r if_True option.case outcome.case)
next
  case False
  then have le: "year w \<le> year u" by simp
  from assms False have fuel: "nat (year u - year w) < n" by simp
  have f: "sub_loop_fuel n (year w) (year u) (week w) (week u) 0 =
        Some (sub_loop (year w) (year u) (week w) (week u) 0)"
    using le fuel by (rule sub_loop_fuel_enough)
  have r: "sub_loop (year w) (year u) (week w) (week u) 0 =
             Returned (0 + (weeks_before (year u) - weeks_before (year w)) + (week u - week w))"
    using le by (rule sub_loop_eq)
  show ?thesis using False by (simp only: Sub_fuel_unfold Sub_unfold f r if_False option.case outcome.case)
qed

text \<open>
  C9. For weeks \<open>a\<close> and \<open>b\<close> that have passed validation, the year-by-year walk inside
  \<^verbatim>\<open>Sub\<close> is over after at most \<open>\<bar>year a - year b\<bar> + 1\<close> passes through the loop, and it ends
  by returning: the guard's panic is not reached.
\<close>

theorem Sub_walk_bounded:
  assumes "valid a" and "valid b"
  shows "Sub_fuel (nat \<bar>year a - year b\<bar> + 1) a b = Some (Sub a b)
         \<and> Sub a b = Returned (week_number b - week_number a)
         \<and> Sub a b \<noteq> Panicked"
proof -
  have "Sub_fuel (nat \<bar>year a - year b\<bar> + 1) a b = Some (Sub a b)"
    by (rule Sub_fuel_enough) simp
  moreover have "Sub a b = Returned (week_number b - week_number a)"
    by (rule Sub_eq)
  ultimately show ?thesis by simp
qed

theorem Sub_walk_bounded_witness:
  "valid \<lparr>year = 2015, week = 53\<rparr> \<and> valid \<lparr>year = 2021, week = 1\<rparr>
   \<and> Sub_fuel 7 \<lparr>year = 2021, week = 1\<rparr> \<lparr>year = 2015, week = 53\<rparr>
       = Some (Sub \<lparr>year = 2021, week = 1\<rparr> \<lparr>year = 2015, week = 53\<rparr>)
   \<and> Sub \<lparr>year = 2021, week = 1\<rparr> \<lparr>year = 2015, week = 53\<rparr> \<noteq> Panicked"
proof -
  have a: "valid \<lparr>year = 2021, week = 1\<rparr>" by (simp add: valid_def weeksInYear_2021)
  have b: "valid \<lparr>year = 2015, week = 53\<rparr>" by (simp add: valid_def weeksInYear_2015)
  have n: "nat \<bar>year \<lparr>year = 2021, week = 1\<rparr> - year \<lparr>year = 2015, week = 53\<rparr>\<bar> + 1 = 7"
    by simp
  show ?thesis using Sub_walk_bounded [OF a b] a b unfolding n by simp
qed

section \<open>Serialization\<close>

text \<open>
  C10. When \<^verbatim>\<open>UnmarshalJSON\<close>, \<^verbatim>\<open>UnmarshalText\<close> or \<^verbatim>\<open>Scan\<close> returns an error, the receiver is
  as it was before the call.
\<close>

theorem unmarshal_error_keeps_receiver:
  "(UnmarshalJSON w data = Returned (w', Some e) \<longrightarrow> w' = w)
   \<and> (snd (UnmarshalText w data) \<noteq> None \<longrightarrow> fst (UnmarshalText w data) = w)
   \<and> (snd (Scan w src) \<noteq> None \<longrightarrow> fst (Scan w src) = w)"
proof -
  have 1: "UnmarshalJSON w data = Returned (w', Some e) \<longrightarrow> w' = w"
    by (simp add: UnmarshalJSON_def split: if_splits sum.splits prod.splits)
  have 2: "snd (UnmarshalText w data) \<noteq> None \<longrightarrow> fst (UnmarshalText w data) = w"
    by (simp add: UnmarshalText_def split: sum.splits prod.splits)
  have 3: "snd (Scan w src) \<noteq> None \<longrightarrow> fst (Scan w src) = w"
    by (simp add: Scan_def split: src_value.splits sum.splits prod.splits)
  from 1 2 3 show ?thesis by blast
qed

lemma decode_missing_separator: "decodeISOWeekDate ''2021W52'' = Inl FormatError"
  by (simp add: decodeISOWeekDate_def)

theorem unmarshal_error_keeps_receiver_witness:
  "UnmarshalJSON \<lparr>year = 2015, week = 53\<rparr> ''2021W52''
     = Returned (\<lparr>year = 2015, week = 53\<rparr>,
                 Some (ErrorsNew ''unable to unmarshal json: string literal expected''))
   \<and> snd (UnmarshalText \<lparr>year = 2015, week = 53\<rparr> ''2021W52'') \<noteq> None
   \<and> fst (UnmarshalText \<lparr>year = 2015, week = 53\<rparr> ''2021W52'') = \<lparr>year = 2015, week = 53\<rparr>
   \<and> snd (Scan \<lparr>year = 2015, week = 53\<rparr> SrcOther) \<noteq> None
   \<and> fst (Scan \<lparr>year = 2015, week = 53\<rparr> SrcOther) = \<lparr>year = 2015, week = 53\<rparr>"
proof -
  let ?w = "\<lparr>year = 2015, week = 53\<rparr>"
  obtain w' where j: "UnmarshalJSON ?w ''2021W52''
      = Returned (w', Some (ErrorsNew ''unable to unmarshal json: string literal expected''))"
    by (simp add: UnmarshalJSON_def)
  have t: "snd (UnmarshalText ?w ''2021W52'') \<noteq> None"
    by (simp add: UnmarshalText_def decode_missing_separator)
  have s: "snd (Scan ?w SrcOther) \<noteq> None"
    by (simp add: Scan_def)
  note k = unmarshal_error_keeps_receiver [of ?w "''2021W52''" w'
      "ErrorsNew ''unable to unmarshal json: string literal expected''" SrcOther]
  from k j have "w' = ?w" by blast
  with j k t s show ?thesis by blast
qed

lemma digit_char_is_digit: "0 \<le> d \<Longrightarrow> d \<le> 9 \<Longrightarrow> is_digit (digit_char d)"
  by (simp add: is_digit_def digit_char_def)

lemma digit_value_digit_char: "0 \<le> d \<Longrightarrow> d \<le> 9 \<Longrightarrow> digit_value (digit_char d) = d"
  by (simp add: digit_value_def digit_char_def)

lemma mod10_le: "(x::int) mod 10 \<le> 9"
  using pos_mod_bound [of 10 x] by linarith

lemma parse_digits_4:
  assumes "0 \<le> a" "a \<le> 9" "0 \<le> b" "b \<le> 9" "0 \<le> c" "c \<le> 9" "0 \<le> d" "d \<le> 9"
  shows "parse_digits [digit_char a, digit_char b, digit_char c, digit_char d]
         = Some (1000 * a + 100 * b + 10 * c + d)"
  using assms by (simp add: parse_digits_def digit_char_is_digit digit_value_digit_char)

lemma parse_digits_2:
  assumes "0 \<le> a" "a \<le> 9" "0 \<le> b" "b \<le> 9"
  shows "parse_digits [digit_char a, digit_char b] = Some (10 * a + b)"
  using assms by (simp add: parse_digits_def digit_char_is_digit digit_value_digit_char)

lemma digits_of_year:
  fixes y :: int
  assumes "0 \<le> y" "y \<le> 9999"
  shows "1000 * (y div 1000 mod 10) + 100 * (y div 100 mod 10) + 10 * (y div 10 mod 10) + y mod 10 = y"
proof -
  have a: "y div 1000 mod 10 = y div 1000" using assms by simp
  have "y div (100 * 10) = y div 100 div 10" by (rule zdiv_zmult2_eq) simp
  then have b: "y div 100 = 10 * (y div 1000) + y div 100 mod 10" by simp
  have "y div (10 * 10) = y div 10 div 10" by (rule zdiv_zmult2_eq) simp
  then have c: "y div 10 = 10 * (y div 100) + y div 10 mod 10" by simp
  have d: "y = 10 * (y div 10) + y mod 10" by simp
  from a b c d show ?thesis by linarith
qed

lemma digits_of_week:
  fixes wk :: int
  assumes "0 \<le> wk" "wk \<le> 99"
  shows "10 * (wk div 10 mod 10) + wk mod 10 = wk"
proof -
  have "wk div 10 mod 10 = wk div 10" using assms by simp
  then show ?thesis by simp
qed

lemma encode_valid:
  assumes "checkYearAndWeek y wk = None"
  shows "encodeISOWeekDate y wk =
           Inr [digit_char (y div 1000 mod 10), digit_char (y div 100 mod 10),
                digit_char (y div 10 mod 10), digit_char (y mod 10),
                CHR ''-'', CHR ''W'',
                digit_char (wk div 10 mod 10), digit_char (wk mod 10)]"
  using assms by (simp add: encodeISOWeekDate_def)

lemma decode_token:
  assumes v: "checkYearAndWeek y wk = None"
  shows "decodeISOWeekDate
           [digit_char (y div 1000 mod 10), digit_char (y div 100 mod 10),
            digit_char (y div 10 mod 10), digit_char (y mod 10),
            CHR ''-'', CHR ''W'',
            digit_char (wk div 10 mod 10), digit_char (wk mod 10)] = Inr (y, wk)"
proof -
  from v have r: "0 \<le> y" "y \<le> 9999" "1 \<le> wk" "wk \<le> weeksInYear y"
    by (simp_all add: checkYearAndWeek_None)
  then have w99: "0 \<le> wk" "wk \<le> 99" using weeksInYear_le [of y] by simp_all
  have "parse_digits [digit_char (y div 1000 mod 10), digit_char (y div 100 mod 10),
                      digit_char (y div 10 mod 10), digit_char (y mod 10)]
        = Some (1000 * (y div 1000 mod 10) + 100 * (y div 100 mod 10) + 10 * (y div 10 mod 10) + y mod 10)"
    by (rule parse_digits_4) (simp_all add: mod10_le)
  then have py: "parse_digits [digit_char (y div 1000 mod 10), digit_char (y div 100 mod 10),
                          digit_char (y div 10 mod 10), digit_char (y mod 10)] = Some y"
    by (simp only: digits_of_year [OF r(1,2)])
  have "parse_digits [digit_char (wk div 10 mod 10), digit_char (wk mod 10)]
        = Some (10 * (wk div 10 mod 10) + wk mod 10)"
    by (rule parse_digits_2) (simp_all add: mod10_le)
  then have pw: "parse_digits [digit_char (wk div 10 mod 10), digit_char (wk mod 10)] = Some wk"
    by (simp only: digits_of_week [OF w99])
  show ?thesis by (simp add: decodeISOWeekDate_def py pw v)
qed

text \<open>
  C1. For every pair with the year in 0..9999 and the week in 1..\<open>weeksInYear year\<close>, the
  encoder produces a token of 8 bytes, and decoding the token gives the pair back; so does
  \<^verbatim>\<open>MarshalText\<close> followed by \<^verbatim>\<open>UnmarshalText\<close>, on any receiver.
\<close>

theorem decode_encode_roundtrip:
  assumes "0 \<le> y" and "y \<le> 9999" and "1 \<le> wk" and "wk \<le> weeksInYear y"
  shows "\<exists>token. encodeISOWeekDate y wk = Inr token \<and> length token = 8
           \<and> decodeISOWeekDate token = Inr (y, wk)
           \<and> MarshalText \<lparr>year = y, week = wk\<rparr> = Inr token
           \<and> UnmarshalText w0 token = (\<lparr>year = y, week = wk\<rparr>, None)"
proof -
  let ?token = "[digit_char (y div 1000 mod 10), digit_char (y div 100 mod 10),
                 digit_char (y div 10 mod 10), digit_char (y mod 10),
                 CHR ''-'', CHR ''W'',
                 digit_char (wk div 10 mod 10), digit_char (wk mod 10)]"
  from assms have v: "checkYearAndWeek y wk = None" by (simp add: checkYearAndWeek_None)
  have e: "encodeISOWeekDate y wk = Inr ?token" using v by (rule encode_valid)
  have d: "decodeISOWeekDate ?token = Inr (y, wk)" using v by (rule decode_token)
  have m: "MarshalText \<lparr>year = y, week = wk\<rparr> = Inr ?token" by (simp add: MarshalText_def e)
  have u: "UnmarshalText w0 ?token = (\<lparr>year = y, week = wk\<rparr>, None)"
    by (simp add: UnmarshalText_def d)
  have l: "length ?token = 8" by simp
  from e l d m u show ?thesis by blast
qed

theorem decode_encode_roundtrip_witness:
  "encodeISOWeekDate 2020 53 = Inr ''2020-W53''
   \<and> decodeISOWeekDate ''2020-W53'' = Inr (2020, 53)
   \<and> UnmarshalText \<lparr>year = 0, week = 0\<rparr> ''2020-W53'' = (\<lparr>year = 2020, week = 53\<rparr>, None)"
proof -
  have h: "0 \<le> (2020::int)" "(2020::int) \<le> 9999" "1 \<le> (53::int)" "53 \<le> weeksInYear 2020"
    by (simp_all add: weeksInYear_2020)
  have e: "encodeISOWeekDate 2020 53 = Inr ''2020-W53''"
    by (simp add: encodeISOWeekDate_def checkYearAndWeek_def weeksInYear_2020 digit_char_def
        char_of_def)
  from decode_encode_roundtrip [OF h, of "\<lparr>year = 0, week = 0\<rparr>"] e show ?thesis by auto
qed

text \<open>The serialization surfaces on malformed input.\<close>

lemma decode_examples:
  "decodeISOWeekDate ''2021-W52'' = Inr (2021, 52)"
  "decodeISOWeekDate ''2021W52'' = Inl FormatError"
  "decodeISOWeekDate ''2021-W99'' = Inl InvalidWeek"
  by (simp_all add: decodeISOWeekDate_def parse_digits_def is_digit_def digit_value_def
      checkYearAndWeek_def weeksInYear_2021)

lemma UnmarshalText_error_cause:
  "decodeISOWeekDate data = Inl c \<Longrightarrow>
   UnmarshalText w data = (w, Some (Wrap c ''unable to unmarshal text''))"
  by (simp add: UnmarshalText_def)

lemma Scan_error_cause:
  "decodeISOWeekDate data = Inl c \<Longrightarrow>
   Scan w (SrcString data) = (w, Some (Wrap c ''unable to scan value''))
   \<and> Scan w (SrcBytes data) = (w, Some (Wrap c ''unable to scan value''))"
  by (simp add: Scan_def)

lemma UnmarshalJSON_error_cause:
  "2 \<le> length data \<Longrightarrow> data ! 0 = CHR 0x22 \<Longrightarrow> data ! (length data - 1) = CHR 0x22 \<Longrightarrow>
   decodeISOWeekDate (take (length data - 2) (drop 1 data)) = Inl c \<Longrightarrow>
   UnmarshalJSON w data = Returned (w, Some (Wrap c ''unable to unmarshal json''))"
  by (auto simp add: UnmarshalJSON_def)

lemma unmarshal_errors_keep_cause:
  assumes "decodeISOWeekDate data = Inl c"
  shows "\<exists>e. snd (UnmarshalText w data) = Some e \<and> cause e = cause c"
    and "\<exists>e. snd (Scan w (SrcBytes data)) = Some e \<and> cause e = cause c"
    and "\<exists>e. snd (Scan w (SrcString data)) = Some e \<and> cause e = cause c"
  using assms by (simp_all add: UnmarshalText_def Scan_def)

text \<open>
  C8. \<^verbatim>\<open>UnmarshalJSON\<close> on the empty input and on the one-byte input that is a double quote:
  the call panics (the index \<^verbatim>\<open>data[0]\<close>, the slice \<^verbatim>\<open>data[1:0]\<close>) and returns no error.
\<close>

theorem UnmarshalJSON_short_input_panics:
  "UnmarshalJSON w [] = Panicked \<and> UnmarshalJSON w [CHR 0x22] = Panicked"
  by (simp add: UnmarshalJSON_def)

theorem UnmarshalJSON_short_input_panics_witness:
  "UnmarshalJSON \<lparr>year = 2021, week = 52\<rparr> [] = Panicked
   \<and> UnmarshalJSON \<lparr>year = 2021, week = 52\<rparr> [CHR 0x22] = Panicked"
  using UnmarshalJSON_short_input_panics [of "\<lparr>year = 2021, week = 52\<rparr>"] by simp

section \<open>Adding weeks\<close>

lemma add_loop_stop:
  "\<not> (wk > maxWeeks \<or> wk < 0) \<Longrightarrow> add_loop sign yr wk maxWeeks = Some (yr, wk)"
  by (subst add_loop.simps) simp

lemma add_loop_forward_step:
  "wk > maxWeeks \<or> wk < 0 \<Longrightarrow>
   add_loop 1 yr wk maxWeeks = add_loop 1 (yr + 1) (wk - maxWeeks) (weeksInYear (yr + 1))"
  by (subst add_loop.simps) simp

lemma add_loop_backward_step:
  "wk > maxWeeks \<or> wk < 0 \<Longrightarrow>
   add_loop (- 1) yr wk maxWeeks
     = add_loop (- 1) (yr - 1) (wk + weeksInYear (yr - 1)) (weeksInYear (yr - 1))"
  by (subst add_loop.simps) simp

lemma add_loop_forward:
  "1 \<le> wk \<Longrightarrow>
   \<exists>yr' wk'. add_loop 1 yr wk (weeksInYear yr) = Some (yr', wk')
      \<and> 1 \<le> wk' \<and> wk' \<le> weeksInYear yr'
      \<and> weeks_before yr' + wk' = weeks_before yr + wk"
proof (induction "nat wk" arbitrary: wk yr rule: less_induct)
  case less
  show ?case
  proof (cases "wk \<le> weeksInYear yr")
    case True
    with less.prems have "add_loop 1 yr wk (weeksInYear yr) = Some (yr, wk)"
      by (intro add_loop_stop) simp
    with True less.prems show ?thesis by simp
  next
    case False
    then have step: "add_loop 1 yr wk (weeksInYear yr)
        = add_loop 1 (yr + 1) (wk - weeksInYear yr) (weeksInYear (yr + 1))"
      by (intro add_loop_forward_step) simp
    have pos: "1 \<le> wk - weeksInYear yr" using False by simp
    have "nat (wk - weeksInYear yr) < nat wk"
      using pos weeksInYear_ge [of yr] by linarith
    from less.hyps [OF this pos, of "yr + 1"]
    obtain yr' wk' where r: "add_loop 1 (yr + 1) (wk - weeksInYear yr) (weeksInYear (yr + 1)) = Some (yr', wk')"
      "1 \<le> wk'" "wk' \<le> weeksInYear yr'"
      "weeks_before yr' + wk' = weeks_before (yr + 1) + (wk - weeksInYear yr)"
      by blast
    from r(4) have "weeks_before yr' + wk' = weeks_before yr + wk"
      by (simp add: weeks_before_Suc)
    with step r(1,2,3) show ?thesis by simp
  qed
qed

lemma add_loop_backward:
  "wk \<le> weeksInYear yr \<Longrightarrow>
   \<exists>yr' wk'. add_loop (- 1) yr wk (weeksInYear yr) = Some (yr', wk')
      \<and> 0 \<le> wk' \<and> wk' \<le> weeksInYear yr'
      \<and> weeks_before yr' + wk' = weeks_before yr + wk"
proof (induction "nat (- wk)" arbitrary: wk yr rule: less_induct)
  case less
  show ?case
  proof (cases "0 \<le> wk")
    case True
    with less.prems have "add_loop (- 1) yr wk (weeksInYear yr) = Some (yr, wk)"
      by (intro add_loop_stop) simp
    with True less.prems show ?thesis by simp
  next
    case False
    then have step: "add_loop (- 1) yr wk (weeksInYear yr)
        = add_loop (- 1) (yr - 1) (wk + weeksInYear (yr - 1)) (weeksInYear (yr - 1))"
      by (intro add_loop_backward_step) simp
    have le: "wk + weeksInYear (yr - 1) \<le> weeksInYear (yr - 1)" using False by simp
    have "nat (- (wk + weeksInYear (yr - 1))) < nat (- wk)"
      using False weeksInYear_ge [of "yr - 1"] by linarith
    from less.hyps [OF this le]
    obtain yr' wk' where r: "add_loop (- 1) (yr - 1) (wk + weeksInYear (yr - 1)) (weeksInYear (yr - 1)) = Some (yr', wk')"
      "0 \<le> wk'" "wk' \<le> weeksInYear yr'"
      "weeks_before yr' + wk' = weeks_before (yr - 1) + (wk + weeksInYear (yr - 1))"
      by blast
    from r(4) have "weeks_before yr' + wk' = weeks_before yr + wk"
      using weeks_before_Suc [of "yr - 1"] by simp
    with step r(1,2,3) show ?thesis by simp
  qed
qed

text \<open>\<^verbatim>\<open>add\<close> returns, and what it passes to \<^verbatim>\<open>New\<close> is the week at the target position.\<close>

lemma add_returns_New:
  assumes "1 \<le> week w" and "week w \<le> weeksInYear (year w)"
  shows "\<exists>yr' wk'. add w delta = Some (New yr' wk')
      \<and> 1 \<le> wk' \<and> wk' \<le> weeksInYear yr'
      \<and> weeks_before yr' + wk' = week_number w + delta"
proof (cases "delta < 0")
  case False
  then have "1 \<le> week w + delta" using assms(1) by simp
  from add_loop_forward [OF this, of "year w"]
  obtain yr' wk' where r: "add_loop 1 (year w) (week w + delta) (weeksInYear (year w)) = Some (yr', wk')"
    "1 \<le> wk'" "wk' \<le> weeksInYear yr'"
    "weeks_before yr' + wk' = weeks_before (year w) + (week w + delta)"
    by blast
  from r(2) have "wk' \<noteq> 0" by simp
  with False r(1) have a: "add w delta = Some (New yr' wk')" by (simp add: add_def)
  from r(4) have "weeks_before yr' + wk' = week_number w + delta" by (simp add: week_number_def)
  with a r(2,3) show ?thesis by blast
next
  case True
  then have "week w + delta \<le> weeksInYear (year w)" using assms(2) by simp
  from add_loop_backward [OF this]
  obtain yr' wk' where r: "add_loop (- 1) (year w) (week w + delta) (weeksInYear (year w)) = Some (yr', wk')"
    "0 \<le> wk'" "wk' \<le> weeksInYear yr'"
    "weeks_before yr' + wk' = weeks_before (year w) + (week w + delta)"
    by blast
  show ?thesis
  proof (cases "wk' = 0")
    case z: True
    with True r(1) have a: "add w delta = Some (New (yr' - 1) (weeksInYear (yr' - 1)))"
      by (simp add: add_def)
    have "weeks_before (yr' - 1) + weeksInYear (yr' - 1) = week_number w + delta"
      using r(4) z weeks_before_Suc [of "yr' - 1"] by (simp add: week_number_def)
    moreover have "1 \<le> weeksInYear (yr' - 1)" using weeksInYear_ge [of "yr' - 1"] by simp
    ultimately show ?thesis using a by blast
  next
    case nz: False
    with True r(1) have a: "add w delta = Some (New yr' wk')" by (simp add: add_def)
    from nz r(2) have p: "1 \<le> wk'" by simp
    from r(4) have "weeks_before yr' + wk' = week_number w + delta" by (simp add: week_number_def)
    with a p r(3) show ?thesis by blast
  qed
qed

lemma weeks_before_0: "weeks_before 0 = 0"
  by (simp add: weeks_before_def)

lemma position_in_range:
  assumes "1 \<le> wk" "wk \<le> weeksInYear yr"
  shows "(0 \<le> yr \<and> yr \<le> 9999)
         = (1 \<le> weeks_before yr + wk \<and> weeks_before yr + wk \<le> weeks_before 10000)"
proof -
  have up: "weeks_before yr + wk \<le> weeks_before (yr + 1)"
    using assms(2) by (simp add: weeks_before_Suc)
  have a: "0 \<le> yr \<Longrightarrow> 1 \<le> weeks_before yr + wk"
    using weeks_before_mono [of 0 yr] assms(1) by (simp add: weeks_before_0)
  have b: "yr \<le> 9999 \<Longrightarrow> weeks_before yr + wk \<le> weeks_before 10000"
    using weeks_before_mono [of "yr + 1" 10000] up by simp
  have c: "yr < 0 \<Longrightarrow> weeks_before yr + wk < 1"
    using weeks_before_mono [of "yr + 1" 0] up by (simp add: weeks_before_0)
  have d: "9999 < yr \<Longrightarrow> weeks_before 10000 < weeks_before yr + wk"
    using weeks_before_mono [of 10000 yr] assms(1) by simp
  from a b c d show ?thesis by linarith
qed

lemma Add_2015_53: "Add \<lparr>year = 2015, week = 53\<rparr> 1 = Some (\<lparr>year = 2016, week = 1\<rparr>, None)"
proof -
  have "add_loop 1 2015 54 53 = add_loop 1 (2015 + 1) (54 - 53) (weeksInYear (2015 + 1))"
    by (rule add_loop_forward_step) simp
  also have "\<dots> = Some (2016, 1)"
    by (simp add: weeksInYear_2016 add_loop_stop)
  finally show ?thesis
    by (simp add: Add_def add_def weeksInYear_2015 weeksInYear_2016 New_def checkYearAndWeek_def)
qed

lemma Add_2016_1: "Add \<lparr>year = 2016, week = 1\<rparr> (- 1) = Some (\<lparr>year = 2015, week = 53\<rparr>, None)"
proof -
  have "add_loop (- 1) 2016 0 52 = Some (2016, 0)"
    by (rule add_loop_stop) simp
  then show ?thesis
    by (simp add: Add_def add_def weeksInYear_2015 weeksInYear_2016 New_def checkYearAndWeek_def)
qed

text \<open>
  C2. For a week \<open>w\<close> that has passed validation and any offset \<open>delta\<close>, \<^verbatim>\<open>Add\<close> returns. When
  the position \<open>delta\<close> weeks after \<open>w\<close> lies between the first week of year 0 and the last
  week of year 9999, it returns without error the valid week at exactly that position;
  otherwise it returns the zero week beside the year's range error. Adding 1 to week 53 of
  2015 gives week 1 of 2016, and adding \<open>- 1\<close> to week 1 of 2016 gives week 53 of 2015.
\<close>

theorem Add_weeks:
  assumes "valid w"
  shows "(1 \<le> week_number w + delta \<and> week_number w + delta \<le> week_number \<lparr>year = 9999, week = weeksInYear 9999\<rparr>
            \<longrightarrow> (\<exists>w'. Add w delta = Some (w', None) \<and> valid w'
                       \<and> week_number w' = week_number w + delta))
         \<and> (week_number w + delta < 1 \<or> week_number \<lparr>year = 9999, week = weeksInYear 9999\<rparr> < week_number w + delta
            \<longrightarrow> Add w delta = Some (\<lparr>year = 0, week = 0\<rparr>, Some InvalidYear))
         \<and> Add (fst (New 2015 53)) 1 = Some (\<lparr>year = 2016, week = 1\<rparr>, None)
         \<and> Add (fst (New 2016 1)) (- 1) = Some (\<lparr>year = 2015, week = 53\<rparr>, None)"
proof -
  from assms have wk: "1 \<le> week w" "week w \<le> weeksInYear (year w)" by (simp_all add: valid_def)
  from add_returns_New [OF wk, of delta]
  obtain yr' wk' where r: "add w delta = Some (New yr' wk')"
    "1 \<le> wk'" "wk' \<le> weeksInYear yr'" "weeks_before yr' + wk' = week_number w + delta"
    by blast
  have last: "week_number \<lparr>year = 9999, week = weeksInYear 9999\<rparr> = weeks_before 10000"
    using weeks_before_Suc [of 9999] by (simp add: week_number_def)
  have range: "(0 \<le> yr' \<and> yr' \<le> 9999)
      = (1 \<le> week_number w + delta \<and> week_number w + delta \<le> weeks_before 10000)"
    using position_in_range [OF r(2,3)] r(4) by simp
  have 1: "1 \<le> week_number w + delta \<and> week_number w + delta \<le> week_number \<lparr>year = 9999, week = weeksInYear 9999\<rparr>
            \<longrightarrow> (\<exists>w'. Add w delta = Some (w', None) \<and> valid w'
                       \<and> week_number w' = week_number w + delta)"
  proof
    assume "1 \<le> week_number w + delta \<and> week_number w + delta \<le> week_number \<lparr>year = 9999, week = weeksInYear 9999\<rparr>"
    with range last have yr: "0 \<le> yr'" "yr' \<le> 9999" by simp_all
    with r(2,3) have "checkYearAndWeek yr' wk' = None" by (simp add: checkYearAndWeek_None)
    then have "New yr' wk' = (\<lparr>year = yr', week = wk'\<rparr>, None)" by (simp add: New_def)
    with r(1) have "Add w delta = Some (\<lparr>year = yr', week = wk'\<rparr>, None)" by (simp add: Add_def)
    moreover have "valid \<lparr>year = yr', week = wk'\<rparr>" using yr r(2,3) by (simp add: valid_def)
    moreover have "week_number \<lparr>year = yr', week = wk'\<rparr> = week_number w + delta"
      using r(4) by (simp add: week_number_def)
    ultimately show "\<exists>w'. Add w delta = Some (w', None) \<and> valid w'
                       \<and> week_number w' = week_number w + delta" by blast
  qed
  have 2: "week_number w + delta < 1 \<or> week_number \<lparr>year = 9999, week = weeksInYear 9999\<rparr> < week_number w + delta
            \<longrightarrow> Add w delta = Some (\<lparr>year = 0, week = 0\<rparr>, Some InvalidYear)"
  proof
    assume "week_number w + delta < 1 \<or> week_number \<lparr>year = 9999, week = weeksInYear 9999\<rparr> < week_number w + delta"
    with range last have "yr' < 0 \<or> 9999 < yr'" by linarith
    then have "checkYearAndWeek yr' wk' = Some InvalidYear" by (simp add: checkYearAndWeek_def)
    then have "New yr' wk' = (\<lparr>year = 0, week = 0\<rparr>, Some InvalidYear)" by (simp add: New_def)
    with r(1) show "Add w delta = Some (\<lparr>year = 0, week = 0\<rparr>, Some InvalidYear)"
      by (simp add: Add_def)
  qed
  have 3: "Add (fst (New 2015 53)) 1 = Some (\<lparr>year = 2016, week = 1\<rparr>, None)"
    by (simp add: New_def checkYearAndWeek_def weeksInYear_2015 Add_2015_53)
  have 4: "Add (fst (New 2016 1)) (- 1) = Some (\<lparr>year = 2015, week = 53\<rparr>, None)"
    by (simp add: New_def checkYearAndWeek_def weeksInYear_2016 Add_2016_1)
  from 1 2 3 4 show ?thesis by blast
qed

theorem Add_weeks_witness:
  "valid \<lparr>year = 2015, week = 53\<rparr>
   \<and> week_number \<lparr>year = 2015, week = 53\<rparr> + 1 = week_number \<lparr>year = 2016, week = 1\<rparr>
   \<and> Add \<lparr>year = 2015, week = 53\<rparr> 1 = Some (\<lparr>year = 2016, week = 1\<rparr>, None)
   \<and> valid \<lparr>year = 0, week = 1\<rparr>
   \<and> Add \<lparr>year = 0, week = 1\<rparr> (- 1) = Some (\<lparr>year = 0, week = 0\<rparr>, Some InvalidYear)"
proof -
  let ?a = "\<lparr>year = 2015, week = 53\<rparr>" and ?b = "\<lparr>year = 2016, week = 1\<rparr>"
  let ?z = "\<lparr>year = 0, week = 1\<rparr>"
  have a: "valid ?a" by (simp add: valid_def weeksInYear_2015)
  have b: "valid ?b" by (simp add: valid_def weeksInYear_2016)
  have z: "valid ?z" using weeksInYear_ge [of 0] by (simp add: valid_def)
  have n: "week_number ?a + 1 = week_number ?b"
    using weeks_before_Suc [of 2015] by (simp add: week_number_def weeksInYear_2015)
  have lo: "1 \<le> week_number ?b"
    using weeks_before_mono [of 0 2016] by (simp add: week_number_def weeks_before_0)
  have hi: "week_number ?b \<le> week_number \<lparr>year = 9999, week = weeksInYear 9999\<rparr>"
    using week_number_less [of ?b "\<lparr>year = 9999, week = weeksInYear 9999\<rparr>"] b weeksInYear_ge [of 9999]
    by (simp add: valid_def before_def)
  from Add_weeks [OF a, of 1] lo hi n
  obtain w' where w': "Add ?a 1 = Some (w', None)" "valid w'" "week_number w' = week_number ?b"
    by auto
  from week_number_inj [OF w'(2) b w'(3)] w'(1)
  have r1: "Add ?a 1 = Some (?b, None)" by simp
  have "week_number ?z + (- 1) < 1" by (simp add: week_number_def weeks_before_0)
  with Add_weeks [OF z, of "- 1"]
  have r2: "Add ?z (- 1) = Some (\<lparr>year = 0, week = 0\<rparr>, Some InvalidYear)" by blast
  from a n r1 z r2 show ?thesis by blast
qed

section \<open>The calendar\<close>

lemma daysSinceEpoch_closed:
  "daysSinceEpoch yr = 365 * (yr - 1) + (yr - 1) div 4 - (yr - 1) div 100 + (yr - 1) div 400"
proof -
  define y where "y = yr - 1"
  define n400 where "n400 = y div 400"
  define y1 where "y1 = y - 400 * n400"
  define n100 where "n100 = y1 div 100"
  define y2 where "y2 = y1 - 100 * n100"
  define n4 where "n4 = y2 div 4"
  define y3 where "y3 = y2 - 4 * n4"
  have y1: "y1 = y mod 400" unfolding y1_def n400_def by (simp add: minus_mult_div_eq_mod)
  have y2: "y2 = y1 mod 100" unfolding y2_def n100_def by (simp add: minus_mult_div_eq_mod)
  have y3: "y3 = y2 mod 4" unfolding y3_def n4_def by (simp add: minus_mult_div_eq_mod)
  have b1: "0 \<le> y1" "y1 < 400" unfolding y1 by simp_all
  have b2: "0 \<le> y2" "y2 < 100" unfolding y2 by simp_all
  have b3: "0 \<le> y3" "y3 < 4" unfolding y3 by simp_all
  have e1: "y = 400 * n400 + y1" unfolding y1_def by simp
  have e2: "y1 = 100 * n100 + y2" unfolding y2_def by simp
  have e3: "y2 = 4 * n4 + y3" unfolding y3_def by simp
  have n100: "0 \<le> n100" "n100 \<le> 3" using b1 unfolding n100_def by simp_all
  have n4: "0 \<le> n4" "n4 \<le> 24" using b2 unfolding n4_def by simp_all
  have d400: "y div 400 = n400" by (simp add: n400_def)
  have d100: "y div 100 = 4 * n400 + n100"
    by (rule int_div_pos_eq [of _ _ _ y2]) (use e1 e2 b2 in simp_all)
  have d4: "y div 4 = 100 * n400 + 25 * n100 + n4"
    by (rule int_div_pos_eq [of _ _ _ y3]) (use e1 e2 e3 b3 in simp_all)
  have "daysSinceEpoch yr = 146097 * n400 + 36524 * n100 + 1461 * n4 + 365 * y3"
    unfolding daysSinceEpoch_def Let_def y_def [symmetric] n400_def [symmetric]
      y1_def [symmetric] n100_def [symmetric] y2_def [symmetric] n4_def [symmetric]
      y3_def [symmetric] ..
  also have "\<dots> = 365 * y + y div 4 - y div 100 + y div 400"
    unfolding d400 d100 d4 using e1 e2 e3 by simp
  finally show ?thesis unfolding y_def .
qed

lemma div_step:
  fixes y :: int
  assumes "0 < k"
  shows "y div k - (y - 1) div k = (if y mod k = 0 then 1 else 0)"
proof (cases "y mod k = 0")
  case True
  then have y: "y = k * (y div k)" using mult_div_mod_eq [of k y] by simp
  have "(y - 1) div k = y div k - 1"
    by (rule int_div_pos_eq [of _ _ _ "k - 1"]) (use y assms in \<open>simp_all add: algebra_simps\<close>)
  with True show ?thesis by simp
next
  case False
  have m: "0 \<le> y mod k" "y mod k < k" using assms by simp_all
  with False have m1: "1 \<le> y mod k" by simp
  have "(y - 1) div k = y div k"
    by (rule int_div_pos_eq [of _ _ _ "y mod k - 1"]) (use m m1 in \<open>simp_all add: algebra_simps\<close>)
  with False show ?thesis by simp
qed

lemma year_length:
  "daysSinceEpoch (yr + 1) - daysSinceEpoch yr = (if isLeap yr then 366 else 365)"
proof -
  have "daysSinceEpoch (yr + 1) - daysSinceEpoch yr
        = 365 + (yr div 4 - (yr - 1) div 4) - (yr div 100 - (yr - 1) div 100)
          + (yr div 400 - (yr - 1) div 400)"
    by (simp add: daysSinceEpoch_closed)
  also have "\<dots> = 365 + (if yr mod 4 = 0 then 1 else 0) - (if yr mod 100 = 0 then 1 else 0)
          + (if yr mod 400 = 0 then 1 else 0)"
    by (simp only: div_step [of 4 yr, simplified] div_step [of 100 yr, simplified]
        div_step [of 400 yr, simplified])
  also have "\<dots> = (if isLeap yr then 366 else 365)"
  proof -
    have a: "yr mod 400 = 0 \<Longrightarrow> yr mod 100 = 0" by presburger
    have b: "yr mod 100 = 0 \<Longrightarrow> yr mod 4 = 0" by presburger
    show ?thesis
    proof (cases "yr mod 400 = 0")
      case True
      moreover from True have "yr mod 100 = 0" by (rule a)
      moreover from this have "yr mod 4 = 0" by (rule b)
      ultimately show ?thesis by (simp add: isLeap_def)
    next
      case n400: False
      show ?thesis
      proof (cases "yr mod 100 = 0")
        case True
        moreover from True have "yr mod 4 = 0" by (rule b)
        ultimately show ?thesis using n400 by (simp add: isLeap_def)
      next
        case False
        with n400 show ?thesis by (simp add: isLeap_def)
      qed
    qed
  qed
  finally show ?thesis .
qed

lemma isLeapYear_isLeap: "isLeapYear y = isLeap y"
  by (simp add: isLeapYear_def isLeap_def)

lemma Date_January: "Date yr 1 day = daysSinceEpoch yr + day - 1"
  by (simp add: Date_def daysBefore_def)

lemma Date_December: "Date yr 12 day = daysSinceEpoch (yr + 1) - 31 + (day - 1)"
proof -
  have "Date yr 12 day = daysSinceEpoch yr + 334 + (if isLeap yr then 1 else 0) + (day - 1)"
    by (simp add: Date_def daysBefore_def)
  then show ?thesis using year_length [of yr] by (simp split: if_splits)
qed

lemma quotient_bounds:
  fixes a :: int
  assumes "0 < b"
  shows "b * (a div b) \<le> a" and "a < b * (a div b) + b"
proof -
  have "a = b * (a div b) + a mod b" by simp
  moreover have "0 \<le> a mod b" "a mod b < b" using assms by simp_all
  ultimately show "b * (a div b) \<le> a" and "a < b * (a div b) + b" by linarith+
qed

lemma absDate_sound:
  assumes "absDate n = (y, d)"
  shows "n = daysSinceEpoch y + d \<and> 0 \<le> d \<and> d < (if isLeap y then 366 else 365)"
proof -
  define q where "q = n div 146097"
  define d1 where "d1 = n - 146097 * q"
  define n100 where "n100 = d1 div 36524"
  define n100' where "n100' = n100 - n100 div 4"
  define d2 where "d2 = d1 - 36524 * n100'"
  define n4 where "n4 = d2 div 1461"
  define d3 where "d3 = d2 - 1461 * n4"
  define n1 where "n1 = d3 div 365"
  define n1' where "n1' = n1 - n1 div 4"
  define d4 where "d4 = d3 - 365 * n1'"
  have "absDate n = (1 + 400 * q + 100 * n100' + 4 * n4 + n1', d4)"
    unfolding absDate_def Let_def q_def [symmetric] d1_def [symmetric] n100_def [symmetric]
      n100'_def [symmetric] d2_def [symmetric] n4_def [symmetric] d3_def [symmetric]
      n1_def [symmetric] n1'_def [symmetric] d4_def [symmetric] ..
  with assms have y: "y = 1 + 400 * q + 100 * n100' + 4 * n4 + n1'" and d: "d = d4" by simp_all
  have d1: "0 \<le> d1" "d1 < 146097"
    using quotient_bounds [of 146097 n] unfolding d1_def q_def by simp_all
  have q100: "36524 * n100 \<le> d1" "d1 < 36524 * n100 + 36524"
    using quotient_bounds [of 36524 d1] unfolding n100_def by simp_all
  have n100: "0 \<le> n100" "n100 \<le> 4" using q100 d1 by linarith+
  have n100': "n100' = (if n100 = 4 then 3 else n100)"
  proof -
    have "n100 div 4 = (if n100 = 4 then 1 else 0)" using n100 by simp
    then show ?thesis unfolding n100'_def by simp
  qed
  have b100: "0 \<le> n100'" "n100' \<le> 3" using n100 unfolding n100' by simp_all
  have d2: "0 \<le> d2" "d2 \<le> 36524" using q100 d1 n100 unfolding d2_def n100' by (simp_all split: if_splits)
  have d2_last: "d2 = 36524 \<Longrightarrow> n100' = 3"
    using q100 n100 unfolding d2_def n100' by (simp split: if_splits)
  have q4: "1461 * n4 \<le> d2" "d2 < 1461 * n4 + 1461"
    using quotient_bounds [of 1461 d2] unfolding n4_def by simp_all
  have n4: "0 \<le> n4" "n4 \<le> 24" using q4 d2 by linarith+
  have d3: "0 \<le> d3" "d3 \<le> 1460" using q4 unfolding d3_def by simp_all
  have q1: "365 * n1 \<le> d3" "d3 < 365 * n1 + 365"
    using quotient_bounds [of 365 d3] unfolding n1_def by simp_all
  have n1: "0 \<le> n1" "n1 \<le> 4" using q1 d3 by linarith+
  have n1': "n1' = (if n1 = 4 then 3 else n1)"
  proof -
    have "n1 div 4 = (if n1 = 4 then 1 else 0)" using n1 by simp
    then show ?thesis unfolding n1'_def by simp
  qed
  have b1: "0 \<le> n1'" "n1' \<le> 3" using n1 unfolding n1' by simp_all
  have d4: "0 \<le> d4" "d4 \<le> 365" using q1 d3 n1 unfolding d4_def n1' by (simp_all split: if_splits)
  have d4_last: "d4 = 365 \<Longrightarrow> n1' = 3 \<and> d3 = 1460"
    using q1 d3 n1 unfolding d4_def n1' by (simp split: if_splits)
  have sum: "n = 146097 * q + 36524 * n100' + 1461 * n4 + 365 * n1' + d4"
    unfolding d4_def d3_def d2_def d1_def by simp
  have c400: "(y - 1) div 400 = q"
    by (rule int_div_pos_eq [of _ _ _ "100 * n100' + 4 * n4 + n1'"]) (use y b100 n4 b1 in simp_all)
  have c100: "(y - 1) div 100 = 4 * q + n100'"
    by (rule int_div_pos_eq [of _ _ _ "4 * n4 + n1'"]) (use y n4 b1 in simp_all)
  have c4: "(y - 1) div 4 = 100 * q + 25 * n100' + n4"
    by (rule int_div_pos_eq [of _ _ _ "n1'"]) (use y b1 in simp_all)
  have days: "daysSinceEpoch y = 146097 * q + 36524 * n100' + 1461 * n4 + 365 * n1'"
    unfolding daysSinceEpoch_closed c400 c100 c4 using y by simp
  have len: "d4 < (if isLeap y then 366 else 365)"
  proof (cases "d4 = 365")
    case False
    with d4 show ?thesis by simp
  next
    case True
    then have l: "n1' = 3" "d3 = 1460" using d4_last by simp_all
    have y4: "y = 4 * (100 * q + 25 * n100' + n4 + 1)" using y l by simp
    have m4: "y mod 4 = 0" unfolding y4 by simp
    have "y mod 100 \<noteq> 0 \<or> y mod 400 = 0"
    proof (cases "n4 = 24")
      case True
      with l have "d2 = 36524" unfolding d3_def by simp
      then have "n100' = 3" by (rule d2_last)
      with True y4 have "y = 400 * (q + 1)" by simp
      then show ?thesis by simp
    next
      case False
      with n4 have "n4 \<le> 23" by simp
      have "y mod 100 = 4 * n4 + 4"
        by (rule int_mod_pos_eq [of _ _ "4 * q + n100'"]) (use y4 n4 \<open>n4 \<le> 23\<close> in simp_all)
      with n4 show ?thesis by simp
    qed
    with m4 have "isLeap y" by (simp add: isLeap_def)
    with d4 show ?thesis by simp
  qed
  from sum days d d4 len show ?thesis by simp
qed

lemma daysSinceEpoch_mono: "a \<le> b \<Longrightarrow> daysSinceEpoch a \<le> daysSinceEpoch b"
proof (induction b rule: int_ge_induct)
  case base
  show ?case by simp
next
  case (step i)
  then show ?case using year_length [of i] by (simp split: if_splits)
qed

lemma absDate_in_year:
  assumes lo: "daysSinceEpoch y \<le> n" and hi: "n < daysSinceEpoch (y + 1)"
  shows "absDate n = (y, n - daysSinceEpoch y)"
proof -
  obtain y' d' where a: "absDate n = (y', d')" by (cases "absDate n")
  from absDate_sound [OF a]
  have s: "n = daysSinceEpoch y' + d'" "0 \<le> d'" "d' < (if isLeap y' then 366 else 365)"
    by simp_all
  have up: "n < daysSinceEpoch (y' + 1)" using s year_length [of y'] by (simp split: if_splits)
  have "\<not> y' < y"
  proof
    assume "y' < y"
    then have "daysSinceEpoch (y' + 1) \<le> daysSinceEpoch y" by (intro daysSinceEpoch_mono) simp
    with up lo show False by simp
  qed
  moreover have "\<not> y < y'"
  proof
    assume "y < y'"
    then have "daysSinceEpoch (y + 1) \<le> daysSinceEpoch y'" by (intro daysSinceEpoch_mono) simp
    with hi s show False by simp
  qed
  ultimately have "y' = y" by simp
  with a s show ?thesis by simp
qed

section \<open>Long years\<close>

lemma mod7_shift: "((x::int) - 7 * k) mod 7 = x mod 7"
  by presburger

lemma Weekday_Dec31: "Weekday (Date y 12 31) = p_year y"
proof -
  have "daysSinceEpoch (y + 1) = 7 * (52 * y) + (y + y div 4 - y div 100 + y div 400)"
    by (simp add: daysSinceEpoch_closed)
  then have "daysSinceEpoch (y + 1) mod 7 = (y + y div 4 - y div 100 + y div 400) mod 7"
    by (simp only: mod_mult_self4)
  then show ?thesis by (simp add: Weekday_def Date_December p_year_def)
qed

lemma Weekday_Jan1: "Weekday (Date y 1 1) = (p_year y - (if isLeap y then 1 else 0)) mod 7"
proof -
  have p: "p_year y = daysSinceEpoch (y + 1) mod 7"
    using Weekday_Dec31 [of y] by (simp add: Weekday_def Date_December)
  have e: "daysSinceEpoch y + 1 = daysSinceEpoch (y + 1) - (if isLeap y then 1 else 0) - 7 * 52"
    using year_length [of y] by (simp split: if_splits)
  have "Weekday (Date y 1 1) = (daysSinceEpoch y + 1) mod 7"
    by (simp add: Weekday_def Date_January)
  also have "\<dots> = (daysSinceEpoch (y + 1) - (if isLeap y then 1 else 0) - 7 * 52) mod 7"
    by (simp only: e)
  also have "\<dots> = (daysSinceEpoch (y + 1) - (if isLeap y then 1 else 0)) mod 7"
    by (simp only: mod7_shift)
  also have "\<dots> = (p_year y - (if isLeap y then 1 else 0)) mod 7"
    unfolding p by (simp only: mod_diff_left_eq)
  finally show ?thesis .
qed

lemma p_year_range: "0 \<le> p_year y \<and> p_year y < 7"
  by (simp add: p_year_def)

lemma long_year_by_Dec31:
  "(weeksInYear y = 53) = (p_year y = 4 \<or> p_year y = 5 \<and> isLeapYear y)"
proof -
  have r: "0 \<le> p_year y" "p_year y < 7" using p_year_range [of y] by simp_all
  have w: "(weeksInYear y = 53) = (Weekday (Date y 1 1) = 4 \<or> Weekday (Date y 12 31) = 4)"
    by (simp add: weeksInYear_def Thursday_def)
  show ?thesis
  proof (cases "isLeap y")
    case True
    have "((p_year y - 1) mod 7 = 4) = (p_year y = 5)" using r by presburger
    with True show ?thesis unfolding w Weekday_Dec31 Weekday_Jan1 isLeapYear_isLeap by auto
  next
    case False
    have "(p_year y mod 7 = 4) = (p_year y = 4)" using r by simp
    with False show ?thesis unfolding w Weekday_Dec31 Weekday_Jan1 isLeapYear_isLeap by simp
  qed
qed

text \<open>
  C4, as amended. For every year, \<open>weeksInYear\<close> is 53 exactly when 1 January of the year
  falls on a Thursday or 31 December does, and 52 otherwise. With \<open>p\<close> the spec's
  \<open>(year + year/4 - year/100 + year/400) mod 7\<close> (flooring division), which is the weekday
  of 31 December, this is exactly when \<open>p year = 4\<close>, or \<open>p year = 5\<close> in a leap year.
  \<open>weeksInYear\<close> is 53 for 2015 and 2020, and 52 for 2016 and 2019.
\<close>

theorem weeksInYear_long_year:
  "(weeksInYear y = 53) = (Weekday (Date y 1 1) = Thursday \<or> Weekday (Date y 12 31) = Thursday)
   \<and> (weeksInYear y = 53) = (p_year y = 4 \<or> p_year y = 5 \<and> isLeapYear y)
   \<and> (weeksInYear y = 53 \<or> weeksInYear y = 52)
   \<and> weeksInYear 2015 = 53 \<and> weeksInYear 2016 = 52
   \<and> weeksInYear 2019 = 52 \<and> weeksInYear 2020 = 53"
proof -
  have 1: "(weeksInYear y = 53) = (Weekday (Date y 1 1) = Thursday \<or> Weekday (Date y 12 31) = Thursday)"
    by (simp add: weeksInYear_def)
  have 2: "(weeksInYear y = 53) = (p_year y = 4 \<or> p_year y = 5 \<and> isLeapYear y)"
    by (rule long_year_by_Dec31)
  have 3: "weeksInYear y = 53 \<or> weeksInYear y = 52"
    using weeksInYear_cases [of y] by blast
  from 1 2 3 weeksInYear_2015 weeksInYear_2016 weeksInYear_2019 weeksInYear_2020
  show ?thesis by blast
qed

theorem weeksInYear_long_year_witness:
  "weeksInYear 2004 = 53 \<and> p_year 2004 = 5 \<and> isLeapYear 2004
   \<and> Weekday (Date 2004 1 1) = Thursday"
proof -
  have p: "p_year 2004 = 5" by (simp add: p_year_def)
  have l: "isLeapYear 2004" by (simp add: isLeapYear_def)
  from weeksInYear_long_year [of 2004] p l have w: "weeksInYear 2004 = 53" by blast
  have "Weekday (Date 2004 1 1) = Thursday"
    by (simp add: Date_January daysSinceEpoch_closed Weekday_def Thursday_def)
  with w p l show ?thesis by blast
qed

text \<open>
  C4, as stated, fails at 2008, a leap year that began on a Tuesday and ended on a
  Wednesday: the spec's formula holds (\<open>p 2008 = 3\<close>), while neither 1 January nor
  31 December is a Thursday, and the year has 52 weeks.
\<close>

theorem long_year_formula_counterexample:
  "long_year_formula 2008
   \<and> \<not> (Weekday (Date 2008 1 1) = Thursday \<or> Weekday (Date 2008 12 31) = Thursday)
   \<and> weeksInYear 2008 = 52"
proof -
  have p: "p_year 2008 = 3" by (simp add: p_year_def)
  have l: "isLeapYear 2008" by (simp add: isLeapYear_def)
  have f: "long_year_formula 2008" unfolding long_year_formula_def using p l by simp
  have j: "Weekday (Date 2008 1 1) = 2"
    by (simp add: Date_January daysSinceEpoch_closed Weekday_def)
  have d: "Weekday (Date 2008 12 31) = 3" unfolding Weekday_Dec31 by (rule p)
  have n: "\<not> (Weekday (Date 2008 1 1) = Thursday \<or> Weekday (Date 2008 12 31) = Thursday)"
    unfolding j d Thursday_def by simp
  then have "weeksInYear 2008 = 52" by (simp add: weeksInYear_def)
  with f n show ?thesis by blast
qed

section \<open>From a week to a day and back\<close>

lemma normalizeOrdinal_Date:
  "Date (fst (normalizeOrdinal yr ordinal)) 1 (snd (normalizeOrdinal yr ordinal))
   = daysSinceEpoch yr + ordinal - 1"
proof (cases "ordinal < 1")
  case True
  have "daysSinceEpoch yr - daysSinceEpoch (yr - 1) = (if isLeap (yr - 1) then 366 else 365)"
    using year_length [of "yr - 1"] by simp
  with True show ?thesis
    by (simp add: normalizeOrdinal_def Date_January isLeapYear_isLeap split: if_splits)
next
  case False
  have "daysSinceEpoch (yr + 1) - daysSinceEpoch yr = (if isLeap yr then 366 else 365)"
    by (rule year_length)
  with False show ?thesis
    by (simp add: normalizeOrdinal_def Date_January isLeapYear_isLeap Let_def split: if_splits)
qed

lemma Time_day:
  "Time w weekday
   = daysSinceEpoch (year w) + 7 * week w + convertToISOWeekday weekday
     - convertToISOWeekday (Weekday (Date (year w) 1 4)) - 4"
proof -
  define ordinal where
    "ordinal = week w * 7 + convertToISOWeekday weekday
               - (convertToISOWeekday (Weekday (Date (year w) 1 4)) + 3)"
  have "Time w weekday
        = Date (fst (normalizeOrdinal (year w) ordinal)) 1 (snd (normalizeOrdinal (year w) ordinal))"
    unfolding Time_def Let_def ordinal_def by (simp add: case_prod_beta)
  also have "\<dots> = daysSinceEpoch (year w) + ordinal - 1" by (rule normalizeOrdinal_Date)
  finally show ?thesis unfolding ordinal_def by simp
qed

text \<open>The ISO weekday of 4 January, from the day count of 1 January.\<close>

lemma jan4_weekday:
  assumes j_def: "j = convertToISOWeekday ((J + 4) mod 7)"
  shows "1 \<le> j \<and> j \<le> 7 \<and> (\<exists>a. J = 7 * a + j - 4)"
proof -
  define m where "m = (J + 4) mod 7"
  have m: "0 \<le> m" "m < 7" unfolding m_def by simp_all
  have J: "J + 4 = 7 * ((J + 4) div 7) + m" unfolding m_def by simp
  show ?thesis
  proof (cases "m = 0")
    case True
    then have j7: "j = 7" unfolding j_def m_def [symmetric] by (simp add: convertToISOWeekday_def Sunday_def)
    have "J = 7 * ((J + 4) div 7 - 1) + j - 4" using J True j7 by simp
    then have "\<exists>a. J = 7 * a + j - 4" by (rule exI)
    with j7 show ?thesis by simp
  next
    case False
    then have jm: "j = m" unfolding j_def m_def [symmetric] by (simp add: convertToISOWeekday_def Sunday_def)
    have "J = 7 * ((J + 4) div 7) + j - 4" using J jm by simp
    then have "\<exists>a. J = 7 * a + j - 4" by (rule exI)
    moreover have "1 \<le> j" "j \<le> 7" using m False jm by simp_all
    ultimately show ?thesis by simp
  qed
qed

lemma mod7_unique:
  fixes r :: int
  assumes "0 \<le> r" "r < 7"
  shows "(7 * c + r) mod 7 = r"
  using assms by simp

lemma div7_unique:
  fixes r :: int
  assumes "0 \<le> r" "r < 7"
  shows "(7 * c + r) div 7 = c"
  using assms by simp

text \<open>The core of the round trip, on day counts: \<open>J\<close> is 1 January of the year, \<open>len\<close> the
  year's length, \<open>j\<close> the ISO weekday of 4 January, \<open>k\<close> the ISO weekday asked for.\<close>

lemma ISOWeek_of_week_day:
  assumes j: "1 \<le> j" "j \<le> 7" "J = 7 * a + j - 4"
    and k: "1 \<le> k" "k \<le> 7"
    and w: "1 \<le> wk"
    and fits: "7 * wk - j < daysSinceEpoch (y + 1) - daysSinceEpoch y"
    and J: "J = daysSinceEpoch y"
  shows "ISOWeek (J + 7 * wk + k - j - 4) = (y, wk)"
proof -
  define t where "t = J + 7 * wk + k - j - 4"
  have t1: "t + 1 = 7 * (a + wk - 1) + k" unfolding t_def j(3) by simp
  have wd: "Weekday t = (if k = 7 then 0 else k)"
  proof (cases "k = 7")
    case True
    then have "t + 1 = 7 * (a + wk) + 0" using t1 by simp
    then have "(t + 1) mod 7 = 0" by (simp only: mod7_unique)
    with True show ?thesis by (simp add: Weekday_def)
  next
    case False
    note t1
    moreover have "0 \<le> k" "k < 7" using k False by simp_all
    ultimately have "(t + 1) mod 7 = k" by (simp only: mod7_unique)
    with False show ?thesis by (simp add: Weekday_def)
  qed
  define th where "th = J + 7 * wk - j"
  have "(if Thursday - Weekday t = 4 then - 3 else Thursday - Weekday t) = 4 - k"
    unfolding wd Thursday_def using k by (simp split: if_splits)
  then have shift: "t + (if Thursday - Weekday t = 4 then - 3 else Thursday - Weekday t) = th"
    unfolding th_def t_def by simp
  have lo: "daysSinceEpoch y \<le> th" unfolding th_def J [symmetric] using j w by simp
  have hi: "th < daysSinceEpoch (y + 1)" unfolding th_def using fits J by simp
  have abs: "absDate th = (y, th - daysSinceEpoch y)" using lo hi by (rule absDate_in_year)
  have "th - daysSinceEpoch y = 7 * (wk - 1) + (7 - j)" unfolding th_def J by simp
  moreover have "0 \<le> 7 - j" "7 - j < 7" using j by simp_all
  ultimately have "(th - daysSinceEpoch y) div 7 = wk - 1" by (simp only: div7_unique)
  then have "ISOWeek t = (y, wk)"
    unfolding ISOWeek_def Let_def shift abs by simp
  then show ?thesis unfolding t_def .
qed

lemma week_fits_year:
  assumes j: "1 \<le> j" "j \<le> 7" "daysSinceEpoch y = 7 * a + j - 4"
    and w: "wk \<le> weeksInYear y"
  shows "7 * wk - j < daysSinceEpoch (y + 1) - daysSinceEpoch y"
proof (cases "wk \<le> 52")
  case True
  then show ?thesis using j year_length [of y] by (simp split: if_splits)
next
  case False
  with w weeksInYear_le [of y] have w53: "wk = 53" "weeksInYear y = 53" by simp_all
  then have thu: "Weekday (Date y 1 1) = 4 \<or> Weekday (Date y 12 31) = 4"
    by (simp add: weeksInYear_def Thursday_def split: if_splits)
  have jan1: "Weekday (Date y 1 1) = (7 * a + (j - 3)) mod 7"
    unfolding Weekday_def Date_January j(3) by (simp add: algebra_simps)
  show ?thesis
  proof (cases "isLeap y")
    case True
    then have len: "daysSinceEpoch (y + 1) - daysSinceEpoch y = 366" using year_length [of y] by simp
    then have "Weekday (Date y 12 31) = (7 * (a + 52) + (j - 2)) mod 7"
      unfolding Weekday_def Date_December using j(3) by (simp add: algebra_simps)
    with thu jan1 have "(7 * a + (j - 3)) mod 7 = 4 \<or> (7 * (a + 52) + (j - 2)) mod 7 = 4" by simp
    then have "6 \<le> j" using j(1,2) by presburger
    with len w53 show ?thesis by simp
  next
    case False
    then have len: "daysSinceEpoch (y + 1) - daysSinceEpoch y = 365" using year_length [of y] by simp
    then have "Weekday (Date y 12 31) = (7 * (a + 52) + (j - 3)) mod 7"
      unfolding Weekday_def Date_December using j(3) by (simp add: algebra_simps)
    with thu jan1 have "(7 * a + (j - 3)) mod 7 = 4 \<or> (7 * (a + 52) + (j - 3)) mod 7 = 4" by simp
    then have "7 \<le> j" using j(1,2) by presburger
    with len w53 show ?thesis by simp
  qed
qed

lemma convertToISOWeekday_range:
  "0 \<le> weekday \<Longrightarrow> weekday \<le> 7 \<Longrightarrow>
   1 \<le> convertToISOWeekday weekday \<and> convertToISOWeekday weekday \<le> 7"
  by (simp add: convertToISOWeekday_def Sunday_def)

text \<open>
  C6. For every week \<open>d\<close> that has passed validation and every weekday,
  \<^verbatim>\<open>FromTime(d.Time(weekday))\<close> has the year and the week of \<open>d\<close>. The weekday is Go's
  \<^verbatim>\<open>time.Weekday\<close>, Sunday = 0 to Saturday = 6, which \<^verbatim>\<open>convertToISOWeekday\<close> maps onto the
  ISO numbers Monday = 1 to Sunday = 7; the ISO number 7 passed as it is counts as Sunday
  too, so the range 0..7 covers both numberings.
\<close>

theorem FromTime_Time_roundtrip:
  assumes "valid d" and "0 \<le> weekday" and "weekday \<le> 7"
  shows "FromTime (Time d weekday) = d
         \<and> year (FromTime (Time d weekday)) = year d
         \<and> week (FromTime (Time d weekday)) = week d"
proof -
  define J where "J = daysSinceEpoch (year d)"
  define j where "j = convertToISOWeekday (Weekday (Date (year d) 1 4))"
  define k where "k = convertToISOWeekday weekday"
  have "Weekday (Date (year d) 1 4) = (J + 4) mod 7"
    unfolding Weekday_def Date_January J_def by (simp add: ac_simps)
  then have "j = convertToISOWeekday ((J + 4) mod 7)" unfolding j_def by simp
  from jan4_weekday [OF this] obtain a where j: "1 \<le> j" "j \<le> 7" "J = 7 * a + j - 4" by blast
  have k: "1 \<le> k" "k \<le> 7"
    unfolding k_def using convertToISOWeekday_range [OF assms(2,3)] by simp_all
  from assms(1) have w: "1 \<le> week d" "week d \<le> weeksInYear (year d)" by (simp_all add: valid_def)
  have fits: "7 * week d - j < daysSinceEpoch (year d + 1) - daysSinceEpoch (year d)"
    using j(1,2) j(3) [unfolded J_def] w(2) by (rule week_fits_year)
  have "ISOWeek (J + 7 * week d + k - j - 4) = (year d, week d)"
    using j k w(1) fits J_def by (rule ISOWeek_of_week_day)
  moreover have "Time d weekday = J + 7 * week d + k - j - 4"
    unfolding Time_day J_def j_def k_def ..
  ultimately have "FromTime (Time d weekday) = d" by (simp add: FromTime_def)
  then show ?thesis by simp
qed

theorem FromTime_Time_roundtrip_witness:
  "valid \<lparr>year = 2020, week = 53\<rparr>
   \<and> FromTime (Time \<lparr>year = 2020, week = 53\<rparr> 0) = \<lparr>year = 2020, week = 53\<rparr>
   \<and> FromTime (Time \<lparr>year = 2020, week = 53\<rparr> 7) = \<lparr>year = 2020, week = 53\<rparr>"
proof -
  have v: "valid \<lparr>year = 2020, week = 53\<rparr>" by (simp add: valid_def weeksInYear_2020)
  have "FromTime (Time \<lparr>year = 2020, week = 53\<rparr> 0) = \<lparr>year = 2020, week = 53\<rparr>"
    using FromTime_Time_roundtrip [OF v, of 0] by simp
  moreover have "FromTime (Time \<lparr>year = 2020, week = 53\<rparr> 7) = \<lparr>year = 2020, week = 53\<rparr>"
    using FromTime_Time_roundtrip [OF v, of 7] by simp
  ultimately show ?thesis using v by simp
qed

section \<open>The invariant of the weeks the package hands out\<close>

lemma decode_valid:
  assumes "decodeISOWeekDate data = Inr (y, wk)"
  shows "valid \<lparr>year = y, week = wk\<rparr>"
proof -
  from assms have "checkYearAndWeek y wk = None"
    by (simp add: decodeISOWeekDate_def split: if_splits option.splits)
  then show ?thesis by (simp add: checkYearAndWeek_valid)
qed

lemma Thursday_of_week:
  "Weekday (t + (if Thursday - Weekday t = 4 then - 3 else Thursday - Weekday t)) = 4"
proof -
  define m where "m = (t + 1) mod 7"
  have m: "0 \<le> m" "m < 7" unfolding m_def by simp_all
  have t: "t + 1 = 7 * ((t + 1) div 7) + m" unfolding m_def by simp
  show ?thesis
  proof (cases "m = 0")
    case True
    then have "t + - 3 + 1 = 7 * ((t + 1) div 7 - 1) + 4" using t by simp
    then have "(t + - 3 + 1) mod 7 = 4" by (simp only: mod7_unique)
    with True show ?thesis unfolding Weekday_def Thursday_def m_def [symmetric] by simp
  next
    case False
    have "t + (4 - m) + 1 = 7 * ((t + 1) div 7) + 4" using t by simp
    then have "(t + (4 - m) + 1) mod 7 = 4" by (simp only: mod7_unique)
    with False show ?thesis unfolding Weekday_def Thursday_def m_def [symmetric] by simp
  qed
qed

lemma ISOWeek_week_in_year:
  assumes "ISOWeek t = (y, wk)"
  shows "1 \<le> wk \<and> wk \<le> weeksInYear y"
proof -
  define th where "th = t + (if Thursday - Weekday t = 4 then - 3 else Thursday - Weekday t)"
  obtain y' yd where a: "absDate th = (y', yd)" by (cases "absDate th")
  from assms a have y: "y' = y" and wk: "wk = yd div 7 + 1"
    unfolding ISOWeek_def Let_def th_def [symmetric] by simp_all
  from absDate_sound [OF a] y
  have s: "th = daysSinceEpoch y + yd" "0 \<le> yd" "yd < (if isLeap y then 366 else 365)"
    by simp_all
  have thu: "(th + 1) mod 7 = 4" using Thursday_of_week [of t] unfolding th_def Weekday_def .
  have lo: "1 \<le> wk" unfolding wk using s(2) by (simp add: pos_imp_zdiv_nonneg_iff)
  have "yd \<le> 365" using s(3) by (simp split: if_splits)
  then have "yd div 7 \<le> 365 div 7" by (rule zdiv_mono1) simp
  then have hi: "wk \<le> 53" unfolding wk by simp
  show ?thesis
  proof (cases "wk = 53")
    case False
    with hi lo weeksInYear_ge [of y] show ?thesis by simp
  next
    case True
    then have "yd div 7 = 52" unfolding wk by simp
    then have "364 \<le> yd" using quotient_bounds(2) [of 7 yd] s(2) by simp
    have "weeksInYear y = 53"
    proof (cases "yd = 364")
      case True
      then have "th + 1 = daysSinceEpoch y + 1 + 7 * 52" using s(1) by simp
      then have "daysSinceEpoch y + 1 = th + 1 - 7 * 52" by simp
      then have "(daysSinceEpoch y + 1) mod 7 = (th + 1) mod 7" by (simp only: mod7_shift)
      with thu have "Weekday (Date y 1 1) = 4" by (simp add: Weekday_def Date_January)
      then show ?thesis by (simp add: weeksInYear_def Thursday_def)
    next
      case False
      with \<open>364 \<le> yd\<close> s(3) have l: "isLeap y" "yd = 365" by (simp_all split: if_splits)
      then have "th = daysSinceEpoch (y + 1) - 1" using s(1) year_length [of y] by simp
      with thu have "Weekday (Date y 12 31) = 4" by (simp add: Weekday_def Date_December)
      then show ?thesis by (simp add: weeksInYear_def Thursday_def)
    qed
    with True lo show ?thesis by simp
  qed
qed

lemma FromTime_fields: "ISOWeek t = (year (FromTime t), week (FromTime t))"
  by (simp add: FromTime_def split: prod.splits)

text \<open>
  C7, as amended. A week that \<^verbatim>\<open>New\<close> returns without error, or that \<^verbatim>\<open>UnmarshalJSON\<close>,
  \<^verbatim>\<open>UnmarshalText\<close> or \<^verbatim>\<open>Scan\<close> leaves in the receiver when they return no error, has its year
  in 0..9999 and its week in 1..\<open>weeksInYear year\<close>; beside an error \<^verbatim>\<open>New\<close> returns the zero
  week. \<^verbatim>\<open>FromTime\<close> does not validate: its week is always in 1..\<open>weeksInYear year\<close>, and its
  result satisfies the invariant exactly when the ISO year of the instant is in 0..9999.
\<close>

theorem public_weeks_valid:
  "(snd (New y wk) = None \<longrightarrow> valid (fst (New y wk)))
   \<and> (snd (New y wk) \<noteq> None \<longrightarrow> fst (New y wk) = \<lparr>year = 0, week = 0\<rparr>)
   \<and> (UnmarshalJSON w data = Returned (w', None) \<longrightarrow> valid w')
   \<and> (snd (UnmarshalText w data) = None \<longrightarrow> valid (fst (UnmarshalText w data)))
   \<and> (snd (Scan w src) = None \<longrightarrow> valid (fst (Scan w src)))
   \<and> 1 \<le> week (FromTime t) \<and> week (FromTime t) \<le> weeksInYear (year (FromTime t))
   \<and> valid (FromTime t) = (0 \<le> year (FromTime t) \<and> year (FromTime t) \<le> 9999)"
proof -
  have 1: "snd (New y wk) = None \<longrightarrow> valid (fst (New y wk))"
  proof (cases "checkYearAndWeek y wk")
    case None
    then have "valid \<lparr>year = y, week = wk\<rparr>" by (simp add: checkYearAndWeek_valid)
    with None show ?thesis by (simp add: New_def)
  next
    case (Some e)
    then show ?thesis by (simp add: New_def)
  qed
  have 2: "snd (New y wk) \<noteq> None \<longrightarrow> fst (New y wk) = \<lparr>year = 0, week = 0\<rparr>"
    by (cases "checkYearAndWeek y wk") (simp_all add: New_def)
  have 3: "UnmarshalJSON w data = Returned (w', None) \<longrightarrow> valid w'"
  proof
    assume r: "UnmarshalJSON w data = Returned (w', None)"
    then obtain yr wk' where "decodeISOWeekDate (take (length data - 2) (drop 1 data)) = Inr (yr, wk')"
      and "w' = w\<lparr>year := yr, week := wk'\<rparr>"
      by (auto simp add: UnmarshalJSON_def split: if_splits sum.splits prod.splits)
    then show "valid w'" using decode_valid [of _ yr wk'] by (simp add: valid_def)
  qed
  have 4: "snd (UnmarshalText w data) = None \<longrightarrow> valid (fst (UnmarshalText w data))"
  proof (cases "decodeISOWeekDate data")
    case (Inl e)
    then show ?thesis by (simp add: UnmarshalText_def)
  next
    case (Inr p)
    then obtain yr wk' where "decodeISOWeekDate data = Inr (yr, wk')" by (cases p) simp
    then show ?thesis using decode_valid [of data yr wk'] by (simp add: UnmarshalText_def valid_def)
  qed
  have 5: "snd (Scan w src) = None \<longrightarrow> valid (fst (Scan w src))"
  proof (cases src)
    case SrcOther
    then show ?thesis by (simp add: Scan_def)
  next
    case (SrcString val)
    show ?thesis
    proof (cases "decodeISOWeekDate val")
      case (Inl e)
      with SrcString show ?thesis by (simp add: Scan_def)
    next
      case (Inr p)
      then obtain yr wk' where "decodeISOWeekDate val = Inr (yr, wk')" by (cases p) simp
      then show ?thesis using decode_valid [of val yr wk'] SrcString by (simp add: Scan_def valid_def)
    qed
  next
    case (SrcBytes val)
    show ?thesis
    proof (cases "decodeISOWeekDate val")
      case (Inl e)
      with SrcBytes show ?thesis by (simp add: Scan_def)
    next
      case (Inr p)
      then obtain yr wk' where "decodeISOWeekDate val = Inr (yr, wk')" by (cases p) simp
      then show ?thesis using decode_valid [of val yr wk'] SrcBytes by (simp add: Scan_def valid_def)
    qed
  qed
  have 6: "1 \<le> week (FromTime t) \<and> week (FromTime t) \<le> weeksInYear (year (FromTime t))"
    using FromTime_fields [of t] by (rule ISOWeek_week_in_year)
  then have 7: "valid (FromTime t) = (0 \<le> year (FromTime t) \<and> year (FromTime t) \<le> 9999)"
    by (simp add: valid_def)
  from 1 2 3 4 5 6 7 show ?thesis by blast
qed

lemma ISOWeek_2021_01_03: "ISOWeek (Date 2021 1 3) = (2020, 53)"
  by code_simp

theorem public_weeks_valid_witness:
  "valid (fst (New 2021 52))
   \<and> fst (New 2021 53) = \<lparr>year = 0, week = 0\<rparr>
   \<and> valid (fst (UnmarshalText \<lparr>year = 0, week = 0\<rparr> ''2021-W52''))
   \<and> valid (fst (Scan \<lparr>year = 0, week = 0\<rparr> (SrcString ''2021-W52'')))
   \<and> FromTime (Date 2021 1 3) = \<lparr>year = 2020, week = 53\<rparr>
   \<and> valid (FromTime (Date 2021 1 3))"
proof -
  let ?z = "\<lparr>year = 0, week = 0\<rparr>"
  note k = public_weeks_valid [of 2021 52 ?z "''2021-W52''" undefined "SrcString ''2021-W52''" "Date 2021 1 3"]
  note e = public_weeks_valid [of 2021 53]
  have n: "snd (New 2021 52) = None" by (simp add: snd_New checkYearAndWeek_None weeksInYear_2021)
  have m: "snd (New 2021 53) \<noteq> None" by (simp add: snd_New checkYearAndWeek_def weeksInYear_2021)
  have u: "snd (UnmarshalText ?z ''2021-W52'') = None"
    by (simp add: UnmarshalText_def decode_examples)
  have s: "snd (Scan ?z (SrcString ''2021-W52'')) = None"
    by (simp add: Scan_def decode_examples)
  have f: "FromTime (Date 2021 1 3) = \<lparr>year = 2020, week = 53\<rparr>"
    by (simp add: FromTime_def ISOWeek_2021_01_03)
  then have y: "0 \<le> year (FromTime (Date 2021 1 3)) \<and> year (FromTime (Date 2021 1 3)) \<le> 9999"
    by simp
  from k e n m u s f y show ?thesis by blast
qed

text \<open>
  C7, as stated, fails for \<^verbatim>\<open>FromTime\<close>: the first of June of the year 10000 is an instant
  of Go's \<^verbatim>\<open>time.Time\<close>, and \<^verbatim>\<open>FromTime\<close> turns it into week 22 of the year 10000, outside
  the supported range.
\<close>

lemma ISOWeek_10000_06_01: "ISOWeek (Date 10000 6 1) = (10000, 22)"
  by code_simp

theorem FromTime_counterexample:
  "FromTime (Date 10000 6 1) = \<lparr>year = 10000, week = 22\<rparr>
   \<and> \<not> valid (FromTime (Date 10000 6 1))"
proof -
  have f: "FromTime (Date 10000 6 1) = \<lparr>year = 10000, week = 22\<rparr>"
    by (simp add: FromTime_def ISOWeek_10000_06_01)
  then show ?thesis by (simp add: valid_def)
qed

end
